theory Spec2Isabelle
  imports Complex_Main
begin

section \<open>Shared view-layer vocabulary\<close>

text \<open>
  The scroll container is a DOM element owned by the browser. The components only read
  three of its metrics and call \<open>scrollTo\<close> on it, so the element is a record of those
  metrics (JavaScript numbers, taken here as reals) and a call on it is a value that is
  appended to the list of calls the component has made. A React ref to the container is
  \<open>element option\<close>: \<open>None\<close> is \<open>parentRef.current === null\<close>.
\<close>

record element =
  scrollHeight :: real
  scrollTop :: real
  clientHeight :: real

datatype behavior = Auto | Smooth

datatype align = AlignStart | AlignCenter | AlignEnd

datatype scroll_call =
    ScrollTo real behavior
  | ScrollToIndex nat align

text \<open>The distance of the viewport's lower edge from the end of the content.\<close>

definition distanceFromBottom :: "element \<Rightarrow> real" where
  "distanceFromBottom el = scrollHeight el - scrollTop el - clientHeight el"

text \<open>
  JavaScript truthiness of a value of type \<open>string | null\<close>: \<open>null\<close> and the empty
  string are falsy.
\<close>

definition truthy :: "string option \<Rightarrow> bool" where
  "truthy e = (case e of None \<Rightarrow> False | Some s \<Rightarrow> s \<noteq> [])"

datatype js_error = TypeError

section \<open>Log viewers with timer-driven scrolling\<close>

text \<open>
  \<open>ProcessLogsViewerContent\<close> (ProcessLogsViewer.tsx) and the first \<open>VirtualizedProcessLogs\<close>
  (VirtualizedProcessLogs.tsx) have the same scroll logic, statement for statement; one
  model serves both. The refs \<open>didInitScroll\<close> and \<open>prevLenRef\<close> /
  \<open>prevLogsLengthRef\<close> are fields; \<open>setTimeout(f, d)\<close> appends \<open>(d, f)\<close> to the
  pending timers, the callback \<open>f\<close> being one of the two closures the component creates.
\<close>

datatype lv_task = DoScroll nat | AutoScrollCheck

record lv_state =
  didInitScroll :: bool
  prevLenRef :: nat
  timers :: "(nat \<times> lv_task) list"
  scrolls :: "scroll_call list"

definition lv_mount :: lv_state where
  "lv_mount = \<lparr>didInitScroll = False, prevLenRef = 0, timers = [], scrolls = []\<rparr>"

definition scrollToBottom :: "element option \<Rightarrow> behavior \<Rightarrow> scroll_call list" where
  "scrollToBottom parentRef b =
     (case parentRef of
        None \<Rightarrow> []
      | Some el \<Rightarrow> [ScrollTo (scrollHeight el) b])"

definition isAtBottom :: "element option \<Rightarrow> bool" where
  "isAtBottom parentRef =
     (case parentRef of
        None \<Rightarrow> True
      | Some el \<Rightarrow> scrollHeight el - scrollTop el - clientHeight el < 50)"

text \<open>The \<open>onScroll\<close> handler calls \<open>isAtBottom\<close> and drops the result.\<close>

definition lv_checkAtBottom :: "element option \<Rightarrow> lv_state \<Rightarrow> lv_state" where
  "lv_checkAtBottom parentRef s = (let _ = isAtBottom parentRef in s)"

definition initScrollEffect :: "nat \<Rightarrow> lv_state \<Rightarrow> lv_state" where
  "initScrollEffect len s =
     (if \<not> didInitScroll s \<and> len > 0
      then s\<lparr>didInitScroll := True, timers := timers s @ [(50, DoScroll 3)]\<rparr>
      else s)"

definition autoScrollEffect :: "nat \<Rightarrow> lv_state \<Rightarrow> lv_state" where
  "autoScrollEffect len s =
     (let prev = prevLenRef s;
          grewBy = int len - int prev;
          s1 = s\<lparr>prevLenRef := len\<rparr>
      in if grewBy > 0 \<and> len > 0 \<and> didInitScroll s1
         then s1\<lparr>timers := timers s1 @ [(50, AutoScrollCheck)]\<rparr>
         else s1)"

text \<open>
  Both effects depend on \<open>logs.length\<close>; React runs them in source order after the mount
  and after every render in which the length changed.
\<close>

definition lv_commit :: "nat \<Rightarrow> lv_state \<Rightarrow> lv_state" where
  "lv_commit len s = autoScrollEffect len (initScrollEffect len s)"

text \<open>
  Running a timer callback; \<open>parentRef\<close> is the ref's value when the callback runs.
\<close>

fun lv_run :: "element option \<Rightarrow> lv_task \<Rightarrow> lv_state \<Rightarrow> lv_state" where
  "lv_run parentRef (DoScroll attempts) s =
     (let s1 = s\<lparr>scrolls := scrolls s @ scrollToBottom parentRef Auto\<rparr>
      in if attempts > 0
         then s1\<lparr>timers := timers s1 @ [(100, DoScroll (attempts - 1))]\<rparr>
         else s1)"
| "lv_run parentRef AutoScrollCheck s =
     (if isAtBottom parentRef
      then s\<lparr>scrolls := scrolls s @ scrollToBottom parentRef Smooth\<rparr>
      else s)"

text \<open>The browser fires the pending timer at position \<open>i\<close> and forgets it.\<close>

definition lv_fire :: "nat \<Rightarrow> element option \<Rightarrow> lv_state \<Rightarrow> lv_state" where
  "lv_fire i parentRef s =
     (if i < length (timers s)
      then lv_run parentRef (snd (timers s ! i))
             (s\<lparr>timers := take i (timers s) @ drop (Suc i) (timers s)\<rparr>)
      else s)"

text \<open>
  No effect of these components returns a cleanup function, so unmounting runs none of
  their code: the refs and the pending timers stay as they are.
\<close>

definition lv_unmount :: "lv_state \<Rightarrow> lv_state" where
  "lv_unmount s = s"

datatype lv_event =
    LogsLength nat
  | Fire nat "element option"
  | Scroll "element option"

fun lv_step :: "lv_state \<Rightarrow> lv_event \<Rightarrow> lv_state" where
  "lv_step s (LogsLength len) = lv_commit len s"
| "lv_step s (Fire i parentRef) = lv_fire i parentRef s"
| "lv_step s (Scroll parentRef) = lv_checkAtBottom parentRef s"

text \<open>
  The initial jumps a run asks for, read off the browser's timers: each render's
  initial-scroll effect is looked at for the timers it adds, and those that start the
  retry chain (\<open>doScroll(3)\<close> after 50 ms) are counted.
\<close>

fun lv_init_jumps :: "lv_state \<Rightarrow> lv_event list \<Rightarrow> nat" where
  "lv_init_jumps s [] = 0"
| "lv_init_jumps s (LogsLength len # evs) =
     count_list (drop (length (timers s)) (timers (initScrollEffect len s))) (50, DoScroll 3)
       + lv_init_jumps (lv_step s (LogsLength len)) evs"
| "lv_init_jumps s (ev # evs) = lv_init_jumps (lv_step s ev) evs"


section \<open>Log viewer with a cached at-bottom flag\<close>

text \<open>
  The second \<open>VirtualizedProcessLogs\<close> (the one that follows \<open>ConversationList\<close> in
  ConversationListContainer.tsx) keeps \<open>atBottom\<close> in component state, updates it in
  the scroll handler and scrolls through the virtualizer in the next animation frame.
  \<open>requestAnimationFrame(f)\<close> appends the call that \<open>f\<close> makes to \<open>vs_raf\<close>.
\<close>

record vs_state =
  vs_atBottom :: bool
  vs_didInitScroll :: bool
  vs_prevLogsLengthRef :: nat
  vs_raf :: "scroll_call list"

definition vs_mount :: vs_state where
  "vs_mount = \<lparr>vs_atBottom = True, vs_didInitScroll = False,
                vs_prevLogsLengthRef = 0, vs_raf = []\<rparr>"

definition vs_checkAtBottom :: "element option \<Rightarrow> vs_state \<Rightarrow> vs_state" where
  "vs_checkAtBottom parentRef s =
     (case parentRef of
        None \<Rightarrow> s
      | Some el \<Rightarrow>
          s\<lparr>vs_atBottom := scrollHeight el - scrollTop el - clientHeight el < 50\<rparr>)"

definition vs_initScrollEffect :: "nat \<Rightarrow> vs_state \<Rightarrow> vs_state" where
  "vs_initScrollEffect len s =
     (if \<not> vs_didInitScroll s \<and> len > 0
      then s\<lparr>vs_didInitScroll := True,
             vs_raf := vs_raf s @ [ScrollToIndex (len - 1) AlignEnd]\<rparr>
      else s)"

definition vs_autoScrollEffect :: "nat \<Rightarrow> vs_state \<Rightarrow> vs_state" where
  "vs_autoScrollEffect len s =
     (let prev = vs_prevLogsLengthRef s;
          grewBy = int len - int prev;
          s1 = s\<lparr>vs_prevLogsLengthRef := len\<rparr>
      in if grewBy > 0 \<and> vs_atBottom s1 \<and> len > 0
         then s1\<lparr>vs_raf := vs_raf s1 @ [ScrollToIndex (len - 1) AlignEnd]\<rparr>
         else s1)"

definition vs_commit :: "nat \<Rightarrow> vs_state \<Rightarrow> vs_state" where
  "vs_commit len s = vs_autoScrollEffect len (vs_initScrollEffect len s)"

datatype vs_event = VsLogsLength nat | VsScroll "element option"

fun vs_step :: "vs_state \<Rightarrow> vs_event \<Rightarrow> vs_state" where
  "vs_step s (VsLogsLength len) = vs_commit len s"
| "vs_step s (VsScroll parentRef) = vs_checkAtBottom parentRef s"

text \<open>
  The initial jumps of a run, read off the animation-frame requests: the scrolls to the
  end of the last entry that each render's initial-scroll effect adds.
\<close>

fun vs_init_jumps :: "vs_state \<Rightarrow> vs_event list \<Rightarrow> nat" where
  "vs_init_jumps s [] = 0"
| "vs_init_jumps s (VsLogsLength len # evs) =
     count_list (drop (length (vs_raf s)) (vs_raf (vs_initScrollEffect len s)))
         (ScrollToIndex (len - 1) AlignEnd)
       + vs_init_jumps (vs_step s (VsLogsLength len)) evs"
| "vs_init_jumps s (ev # evs) = vs_init_jumps (vs_step s ev) evs"

section \<open>Rendering the log viewers\<close>

text \<open>
  \<open>LogEntry\<close> is the \<open>STDOUT\<close>/\<open>STDERR\<close> part of \<open>PatchType\<close>: a tag and a text.
  The visible rows come from the virtualization library, which is outside the
  repository: \<open>vis\<close> is the list of \<open>virtualRow.index\<close> values that
  \<open>getVirtualItems()\<close> returned. Reading \<open>logs[i]\<close> out of range gives
  \<open>undefined\<close>, and reading a property of it throws.
\<close>

datatype log_entry = STDOUT string | STDERR string

datatype channel = Ch_stdout | Ch_stderr

fun content :: "log_entry \<Rightarrow> string" where
  "content (STDOUT c) = c"
| "content (STDERR c) = c"

fun channel_of :: "log_entry \<Rightarrow> channel" where
  "channel_of (STDERR c) = Ch_stderr"
| "channel_of (STDOUT c) = Ch_stdout"

record raw_log_text =
  rlt_key :: nat
  rlt_content :: string
  rlt_channel :: channel

datatype 'row view = NoLogsAvailable | ErrorView string | ListView "'row list"

definition formatLogLine :: "log_entry \<Rightarrow> nat \<Rightarrow> raw_log_text" where
  "formatLogLine entry index =
     \<lparr>rlt_key = index, rlt_content = content entry, rlt_channel = channel_of entry\<rparr>"

fun plv_rows :: "nat list \<Rightarrow> log_entry list \<Rightarrow> js_error + raw_log_text list" where
  "plv_rows [] logs = Inr []"
| "plv_rows (i # vis) logs =
     (if i < length logs
      then (case plv_rows vis logs of
              Inl e \<Rightarrow> Inl e
            | Inr rows \<Rightarrow> Inr (formatLogLine (logs ! i) i # rows))
      else Inl TypeError)"

definition plv_render ::
  "nat list \<Rightarrow> log_entry list \<Rightarrow> string option \<Rightarrow> js_error + raw_log_text view" where
  "plv_render vis logs error =
     (if length logs = 0 \<and> \<not> truthy error then Inr NoLogsAvailable
      else if truthy error then Inr (ErrorView (the error))
      else (case plv_rows vis logs of
              Inl e \<Rightarrow> Inl e
            | Inr rows \<Rightarrow> Inr (ListView rows)))"

text \<open>
  \<open>VirtualizedProcessLogs\<close> (both versions render alike) first pairs every entry with
  its index, \<open>logsWithKeys\<close>, then renders the visible ones with the search highlight.
  The key \<open>log-${index}\<close> is kept as the index it is built from. The effect that
  scrolls to the current search match reads only the match props, not the entries, and
  is left out.
\<close>

record log_entry_with_key =
  lk_entry :: log_entry
  lk_key :: nat
  lk_originalIndex :: nat

definition logsWithKeys :: "log_entry list \<Rightarrow> log_entry_with_key list" where
  "logsWithKeys logs =
     map (\<lambda>(index, entry). \<lparr>lk_entry = entry, lk_key = index, lk_originalIndex = index\<rparr>)
       (enumerate 0 logs)"

record vpl_row =
  vr_key :: nat
  vr_content :: string
  vr_channel :: channel
  vr_searchQuery :: "string option"
  vr_isCurrentMatch :: bool

text \<open>\<open>matchIndices[currentMatchIndex]\<close>: \<open>undefined\<close> when the index is out of range.\<close>

definition matchAt :: "nat list \<Rightarrow> int \<Rightarrow> nat option" where
  "matchAt matchIndices currentMatchIndex =
     (if 0 \<le> currentMatchIndex \<and> nat currentMatchIndex < length matchIndices
      then Some (matchIndices ! nat currentMatchIndex) else None)"

definition vpl_row_of :: "string \<Rightarrow> nat list \<Rightarrow> int \<Rightarrow> log_entry_with_key \<Rightarrow> vpl_row" where
  "vpl_row_of searchQuery matchIndices currentMatchIndex d =
     (let isMatch = (lk_originalIndex d \<in> set matchIndices);
          isCurrentMatch = (matchAt matchIndices currentMatchIndex = Some (lk_originalIndex d))
      in \<lparr>vr_key = lk_key d,
          vr_content = content (lk_entry d),
          vr_channel = channel_of (lk_entry d),
          vr_searchQuery = (if isMatch then Some searchQuery else None),
          vr_isCurrentMatch = isCurrentMatch\<rparr>)"

fun vpl_rows ::
  "string \<Rightarrow> nat list \<Rightarrow> int \<Rightarrow> nat list \<Rightarrow> log_entry_with_key list \<Rightarrow> js_error + vpl_row list" where
  "vpl_rows q mi cmi [] lks = Inr []"
| "vpl_rows q mi cmi (i # vis) lks =
     (if i < length lks
      then (case vpl_rows q mi cmi vis lks of
              Inl e \<Rightarrow> Inl e
            | Inr rows \<Rightarrow> Inr (vpl_row_of q mi cmi (lks ! i) # rows))
      else Inl TypeError)"

definition vpl_render ::
  "nat list \<Rightarrow> log_entry list \<Rightarrow> string option \<Rightarrow> string \<Rightarrow> nat list \<Rightarrow> int
     \<Rightarrow> js_error + vpl_row view" where
  "vpl_render vis logs error searchQuery matchIndices currentMatchIndex =
     (if length logs = 0 \<and> \<not> truthy error then Inr NoLogsAvailable
      else if truthy error then Inr (ErrorView (the error))
      else (case vpl_rows searchQuery matchIndices currentMatchIndex vis (logsWithKeys logs) of
              Inl e \<Rightarrow> Inl e
            | Inr rows \<Rightarrow> Inr (ListView rows)))"


section \<open>Conversation entries and the entries context\<close>

text \<open>
  Modelled from the spec: \<open>PatchTypeWithKey\<close> and \<open>AddEntryType\<close> are declared in
  hooks/useConversationHistory, which is not among the sources. The spec's data model
  gives a conversation entry as a raw stdout line, a raw stderr line, or a normalized
  structured entry keyed by a patch identifier and linked to an originating process id;
  the components read \<open>content\<close>, \<open>patchKey\<close> and \<open>executionProcessId\<close>. The
  normalized content is opaque to them (type variable \<open>'n\<close>). \<open>AddEntryType\<close> is a
  union of string literals, of which the components name \<open>'initial'\<close>, \<open>'running'\<close>
  and \<open>'plan'\<close>; it is kept as a string.
\<close>

datatype 'n patch =
    P_STDOUT string string
  | P_STDERR string string
  | P_NORMALIZED_ENTRY 'n string string

type_synonym AddEntryType = string

text \<open>
  The entries context (\<open>useEntries\<close>) is outside the sources as well; the model keeps the
  calls a component makes on it, in order.
\<close>

datatype 'n context_call = SetEntries "'n patch list" | Reset

section \<open>ConversationList: debounced updates\<close>

text \<open>
  \<open>pendingUpdateRef\<close> holds the last update handed to \<open>onEntriesUpdated\<close>. The
  browser's table of live timeouts is explicit: an entry is the id \<open>setTimeout\<close>
  returned, the delay, and the value of \<open>loading\<close> that the callback's closure captured
  (the one variable of the closure that is not a ref or a stable setter).
  Browser timer ids are positive, so \<open>cl_nextTimerId\<close> starts at 1.
\<close>

record 'n pending_update =
  pu_entries :: "'n patch list"
  pu_addType :: AddEntryType
  pu_loading :: bool

record 'n cl_state =
  cl_entries :: "'n patch list"
  cl_loading :: bool
  cl_atBottom :: bool
  cl_didInitScroll :: bool
  cl_prevEntriesLengthRef :: nat
  cl_addTypeRef :: AddEntryType
  cl_pendingUpdateRef :: "'n pending_update option"
  cl_debounceTimeoutRef :: "nat option"
  cl_timeouts :: "(nat \<times> nat \<times> bool) list"
  cl_nextTimerId :: nat
  cl_raf :: "scroll_call list"
  cl_context :: "'n context_call list"

text \<open>The initial values of the \<open>useState\<close> and \<open>useRef\<close> hooks.\<close>

definition cl_initial :: "'n cl_state" where
  "cl_initial =
     \<lparr>cl_entries = [], cl_loading = True, cl_atBottom = True, cl_didInitScroll = False,
      cl_prevEntriesLengthRef = 0, cl_addTypeRef = ''initial'', cl_pendingUpdateRef = None,
      cl_debounceTimeoutRef = None, cl_timeouts = [], cl_nextTimerId = 1, cl_raf = [],
      cl_context = []\<rparr>"

definition clearTimeout :: "nat \<Rightarrow> 'n cl_state \<Rightarrow> 'n cl_state" where
  "clearTimeout timerId s = s\<lparr>cl_timeouts := filter (\<lambda>t. fst t \<noteq> timerId) (cl_timeouts s)\<rparr>"

text \<open>\<open>if (debounceTimeoutRef.current) clearTimeout(debounceTimeoutRef.current)\<close>\<close>

definition clearDebounce :: "'n cl_state \<Rightarrow> 'n cl_state" where
  "clearDebounce s =
     (case cl_debounceTimeoutRef s of
        None \<Rightarrow> s
      | Some timerId \<Rightarrow> if timerId \<noteq> 0 then clearTimeout timerId s else s)"

text \<open>The effect on \<open>attempt.id\<close>.\<close>

definition cl_attemptEffect :: "'n cl_state \<Rightarrow> 'n cl_state" where
  "cl_attemptEffect s =
     s\<lparr>cl_loading := True, cl_entries := [], cl_didInitScroll := False,
       cl_prevEntriesLengthRef := 0, cl_context := cl_context s @ [Reset]\<rparr>"

text \<open>The cleanup of the mount effect, run on unmount.\<close>

definition cl_unmount :: "'n cl_state \<Rightarrow> 'n cl_state" where
  "cl_unmount s = clearDebounce s"

text \<open>
  \<open>onEntriesUpdated\<close>; \<open>loading\<close> is the value captured by the callback instance that is
  called (\<open>useCallback\<close> builds a new instance whenever \<open>loading\<close> changes), and the
  timeout's closure captures it in turn.
\<close>

definition cl_onEntriesUpdated ::
  "bool \<Rightarrow> 'n patch list \<Rightarrow> AddEntryType \<Rightarrow> bool \<Rightarrow> 'n cl_state \<Rightarrow> 'n cl_state" where
  "cl_onEntriesUpdated loading newEntries addType newLoading s =
     (let s1 = s\<lparr>cl_pendingUpdateRef :=
                   Some \<lparr>pu_entries = newEntries, pu_addType = addType, pu_loading = newLoading\<rparr>\<rparr>;
          s2 = clearDebounce s1;
          timerId = cl_nextTimerId s2
      in s2\<lparr>cl_timeouts := cl_timeouts s2 @ [(timerId, 100, loading)],
            cl_nextTimerId := timerId + 1,
            cl_debounceTimeoutRef := Some timerId\<rparr>)"

text \<open>The body of the debounce callback, with its captured \<open>loading\<close>.\<close>

definition cl_applyPending :: "bool \<Rightarrow> 'n cl_state \<Rightarrow> 'n cl_state" where
  "cl_applyPending loading s =
     (case cl_pendingUpdateRef s of
        None \<Rightarrow> s
      | Some pending \<Rightarrow>
          (let s1 = s\<lparr>cl_addTypeRef := pu_addType pending,
                      cl_entries := pu_entries pending,
                      cl_context := cl_context s @ [SetEntries (pu_entries pending)]\<rparr>
           in if loading then s1\<lparr>cl_loading := pu_loading pending\<rparr> else s1))"

text \<open>The browser fires the live timeout with the given id, if there is one.\<close>

definition cl_fire :: "nat \<Rightarrow> 'n cl_state \<Rightarrow> 'n cl_state" where
  "cl_fire timerId s =
     (case filter (\<lambda>t. fst t = timerId) (cl_timeouts s) of
        [] \<Rightarrow> s
      | t # _ \<Rightarrow> cl_applyPending (snd (snd t)) (clearTimeout timerId s))"

definition cl_checkAtBottom :: "element option \<Rightarrow> 'n cl_state \<Rightarrow> 'n cl_state" where
  "cl_checkAtBottom parentRef s =
     (case parentRef of
        None \<Rightarrow> s
      | Some el \<Rightarrow>
          s\<lparr>cl_atBottom := scrollHeight el - scrollTop el - clientHeight el < 100\<rparr>)"

definition cl_initScrollEffect :: "'n cl_state \<Rightarrow> 'n cl_state" where
  "cl_initScrollEffect s =
     (if \<not> cl_didInitScroll s \<and> length (cl_entries s) > 0 \<and> \<not> cl_loading s
      then s\<lparr>cl_didInitScroll := True,
             cl_raf := cl_raf s @ [ScrollToIndex (length (cl_entries s) - 1) AlignEnd]\<rparr>
      else s)"

definition cl_autoScrollEffect :: "'n cl_state \<Rightarrow> 'n cl_state" where
  "cl_autoScrollEffect s =
     (let len = length (cl_entries s);
          prev = cl_prevEntriesLengthRef s;
          grewBy = int len - int prev;
          s1 = s\<lparr>cl_prevEntriesLengthRef := len\<rparr>
      in if grewBy > 0 \<and> len > 0 \<and> cl_didInitScroll s1
         then (let addType = cl_addTypeRef s1
               in if addType = ''plan'' \<and> \<not> cl_loading s1
                  then s1\<lparr>cl_raf := cl_raf s1 @ [ScrollToIndex (len - 1) AlignStart]\<rparr>
                  else if addType = ''running'' \<and> \<not> cl_loading s1 \<and> cl_atBottom s1
                  then s1\<lparr>cl_raf := cl_raf s1 @ [ScrollToIndex (len - 1) AlignEnd]\<rparr>
                  else s1)
         else s1)"

definition cl_commit :: "'n cl_state \<Rightarrow> 'n cl_state" where
  "cl_commit s = cl_autoScrollEffect (cl_initScrollEffect s)"

text \<open>
  The component once mounted: the first render has run its effects in source order, the
  attempt effect (which calls \<open>reset()\<close>) and then the two scroll effects.
\<close>

definition cl_mount :: "'n cl_state" where
  "cl_mount = cl_commit (cl_attemptEffect cl_initial)"

text \<open>
  What the event loop does to the component, one event at a time. A change of
  \<open>attempt.id\<close> runs the attempt effect. A call of \<open>onEntriesUpdated\<close> goes to some
  instance of the callback: every render in which \<open>loading\<close> differed built its own
  instance, the history hook (outside the sources) calls whichever one it holds, so the
  event carries the \<open>loading\<close> that instance captured, current or not. A live timeout
  fires; the container scrolls; React commits a render and runs the scroll effects
  (\<open>Rendered\<close>). Any number of handler events may come before the next render, as when
  React batches the state updates of one tick.
\<close>

datatype 'n cl_event =
    AttemptChanged
  | EntriesUpdated bool "'n patch list" AddEntryType bool
  | TimeoutFires nat
  | Scrolled "element option"
  | Rendered

fun cl_step :: "'n cl_state \<Rightarrow> 'n cl_event \<Rightarrow> 'n cl_state" where
  "cl_step s AttemptChanged = cl_attemptEffect s"
| "cl_step s (EntriesUpdated loading newEntries addType newLoading) =
     cl_onEntriesUpdated loading newEntries addType newLoading s"
| "cl_step s (TimeoutFires timerId) = cl_fire timerId s"
| "cl_step s (Scrolled parentRef) = cl_checkAtBottom parentRef s"
| "cl_step s Rendered = cl_commit s"

fun is_attempt_change :: "'n cl_event \<Rightarrow> bool" where
  "is_attempt_change AttemptChanged = True"
| "is_attempt_change _ = False"


text \<open>
  The initial jumps of a run, read off the animation-frame requests: at each render, the
  scrolls to the end of the last entry that the initial-scroll effect adds.
\<close>

fun cl_init_jumps :: "'n cl_state \<Rightarrow> 'n cl_event list \<Rightarrow> nat" where
  "cl_init_jumps s [] = 0"
| "cl_init_jumps s (Rendered # evs) =
     count_list (drop (length (cl_raf s)) (cl_raf (cl_initScrollEffect s)))
         (ScrollToIndex (length (cl_entries s) - 1) AlignEnd)
       + cl_init_jumps (cl_step s Rendered) evs"
| "cl_init_jumps s (ev # evs) = cl_init_jumps (cl_step s ev) evs"

text \<open>Whether some render of the run sees a non-empty list with loading finished.\<close>

fun cl_ever_ready :: "'n cl_state \<Rightarrow> 'n cl_event list \<Rightarrow> bool" where
  "cl_ever_ready s [] = False"
| "cl_ever_ready s (Rendered # evs) =
     ((length (cl_entries s) > 0 \<and> \<not> cl_loading s) \<or> cl_ever_ready (cl_step s Rendered) evs)"
| "cl_ever_ready s (ev # evs) = cl_ever_ready (cl_step s ev) evs"


section \<open>VirtualizedList with scroll tracking\<close>

text \<open>
  The first \<open>VirtualizedList\<close> of logs/VirtualizedList.tsx applies every update at
  once and scrolls in the next animation frame.
\<close>

record 'n vl_state =
  vl_entries :: "'n patch list"
  vl_loading :: bool
  vl_atBottom :: bool
  vl_didInitScroll :: bool
  vl_prevEntriesLengthRef :: nat
  vl_addTypeRef :: AddEntryType
  vl_raf :: "scroll_call list"
  vl_context :: "'n context_call list"

definition vl_initial :: "'n vl_state" where
  "vl_initial =
     \<lparr>vl_entries = [], vl_loading = True, vl_atBottom = True, vl_didInitScroll = False,
      vl_prevEntriesLengthRef = 0, vl_addTypeRef = ''initial'', vl_raf = [],
      vl_context = []\<rparr>"

definition vl_attemptEffect :: "'n vl_state \<Rightarrow> 'n vl_state" where
  "vl_attemptEffect s =
     s\<lparr>vl_loading := True, vl_entries := [], vl_didInitScroll := False,
       vl_prevEntriesLengthRef := 0, vl_context := vl_context s @ [Reset]\<rparr>"

text \<open>\<open>onEntriesUpdated\<close>, with the \<open>loading\<close> the called instance captured.\<close>

definition vl_onEntriesUpdated ::
  "bool \<Rightarrow> 'n patch list \<Rightarrow> AddEntryType \<Rightarrow> bool \<Rightarrow> 'n vl_state \<Rightarrow> 'n vl_state" where
  "vl_onEntriesUpdated loading newEntries addType newLoading s =
     (let s1 = s\<lparr>vl_addTypeRef := addType,
                 vl_entries := newEntries,
                 vl_context := vl_context s @ [SetEntries newEntries]\<rparr>
      in if loading then s1\<lparr>vl_loading := newLoading\<rparr> else s1)"

definition vl_checkAtBottom :: "element option \<Rightarrow> 'n vl_state \<Rightarrow> 'n vl_state" where
  "vl_checkAtBottom parentRef s =
     (case parentRef of
        None \<Rightarrow> s
      | Some el \<Rightarrow>
          s\<lparr>vl_atBottom := scrollHeight el - scrollTop el - clientHeight el < 100\<rparr>)"

definition vl_initScrollEffect :: "'n vl_state \<Rightarrow> 'n vl_state" where
  "vl_initScrollEffect s =
     (if \<not> vl_didInitScroll s \<and> length (vl_entries s) > 0 \<and> \<not> vl_loading s
      then s\<lparr>vl_didInitScroll := True,
             vl_raf := vl_raf s @ [ScrollToIndex (length (vl_entries s) - 1) AlignEnd]\<rparr>
      else s)"

definition vl_autoScrollEffect :: "'n vl_state \<Rightarrow> 'n vl_state" where
  "vl_autoScrollEffect s =
     (let len = length (vl_entries s);
          prev = vl_prevEntriesLengthRef s;
          grewBy = int len - int prev;
          s1 = s\<lparr>vl_prevEntriesLengthRef := len\<rparr>
      in if grewBy > 0 \<and> vl_atBottom s1 \<and> len > 0 \<and> vl_didInitScroll s1
         then (let addType = vl_addTypeRef s1
               in if addType = ''running'' \<or> addType = ''plan''
                  then s1\<lparr>vl_raf := vl_raf s1 @ [ScrollToIndex (len - 1) AlignEnd]\<rparr>
                  else s1)
         else s1)"

definition vl_commit :: "'n vl_state \<Rightarrow> 'n vl_state" where
  "vl_commit s = vl_autoScrollEffect (vl_initScrollEffect s)"

text \<open>Mounted: the attempt effect, then the scroll effects, of the first render.\<close>

definition vl_mount :: "'n vl_state" where
  "vl_mount = vl_commit (vl_attemptEffect vl_initial)"

text \<open>
  Events as for \<open>ConversationList\<close>: an update carries the \<open>loading\<close> captured by the
  callback instance it goes through, and a render (\<open>VlRendered\<close>) may follow any number
  of handler events.
\<close>

datatype 'n vl_event =
    VlAttemptChanged
  | VlEntriesUpdated bool "'n patch list" AddEntryType bool
  | VlScrolled "element option"
  | VlRendered

fun vl_step :: "'n vl_state \<Rightarrow> 'n vl_event \<Rightarrow> 'n vl_state" where
  "vl_step s VlAttemptChanged = vl_attemptEffect s"
| "vl_step s (VlEntriesUpdated loading newEntries addType newLoading) =
     vl_onEntriesUpdated loading newEntries addType newLoading s"
| "vl_step s (VlScrolled parentRef) = vl_checkAtBottom parentRef s"
| "vl_step s VlRendered = vl_commit s"

fun vl_is_attempt_change :: "'n vl_event \<Rightarrow> bool" where
  "vl_is_attempt_change VlAttemptChanged = True"
| "vl_is_attempt_change _ = False"


fun vl_init_jumps :: "'n vl_state \<Rightarrow> 'n vl_event list \<Rightarrow> nat" where
  "vl_init_jumps s [] = 0"
| "vl_init_jumps s (VlRendered # evs) =
     count_list (drop (length (vl_raf s)) (vl_raf (vl_initScrollEffect s)))
         (ScrollToIndex (length (vl_entries s) - 1) AlignEnd)
       + vl_init_jumps (vl_step s VlRendered) evs"
| "vl_init_jumps s (ev # evs) = vl_init_jumps (vl_step s ev) evs"

fun vl_ever_ready :: "'n vl_state \<Rightarrow> 'n vl_event list \<Rightarrow> bool" where
  "vl_ever_ready s [] = False"
| "vl_ever_ready s (VlRendered # evs) =
     ((length (vl_entries s) > 0 \<and> \<not> vl_loading s) \<or> vl_ever_ready (vl_step s VlRendered) evs)"
| "vl_ever_ready s (ev # evs) = vl_ever_ready (vl_step s ev) evs"

section \<open>VirtualizedList with interval-driven scrolling\<close>

text \<open>
  The second \<open>VirtualizedList\<close> of logs/VirtualizedList.tsx has no scroll handler and no
  init flag: its one scroll effect scrolls to the last entry and polls every 50 ms.
  The live interval is kept with its closure: \<open>elapsed\<close> and the entry count the effect
  saw. The effect's cleanup (\<open>clearInterval\<close>) runs before the effect runs again and on
  unmount.
\<close>

record 'n vi_state =
  vi_entries :: "'n patch list"
  vi_loading :: bool
  vi_interval :: "(nat \<times> nat) option"
  vi_scrolls :: "scroll_call list"
  vi_context :: "'n context_call list"

definition vi_initial :: "'n vi_state" where
  "vi_initial = \<lparr>vi_entries = [], vi_loading = True, vi_interval = None, vi_scrolls = [],
                 vi_context = []\<rparr>"

definition vi_attemptEffect :: "'n vi_state \<Rightarrow> 'n vi_state" where
  "vi_attemptEffect s =
     s\<lparr>vi_loading := True, vi_entries := [], vi_context := vi_context s @ [Reset]\<rparr>"

definition vi_onEntriesUpdated ::
  "'n patch list \<Rightarrow> AddEntryType \<Rightarrow> bool \<Rightarrow> 'n vi_state \<Rightarrow> 'n vi_state" where
  "vi_onEntriesUpdated newEntries addType newLoading s =
     (let s1 = s\<lparr>vi_entries := newEntries,
                 vi_context := vi_context s @ [SetEntries newEntries]\<rparr>
      in if newLoading = False then s1\<lparr>vi_loading := False\<rparr> else s1)"

definition vi_scrollEffect :: "'n vi_state \<Rightarrow> 'n vi_state" where
  "vi_scrollEffect s =
     (let s0 = s\<lparr>vi_interval := None\<rparr>;
          len = length (vi_entries s0)
      in if len = 0 then s0
         else s0\<lparr>vi_scrolls := vi_scrolls s0 @ [ScrollToIndex (len - 1) AlignEnd],
                 vi_interval := Some (0, len)\<rparr>)"

definition vi_tick :: "element option \<Rightarrow> 'n vi_state \<Rightarrow> 'n vi_state" where
  "vi_tick parentRef s =
     (case vi_interval s of
        None \<Rightarrow> s
      | Some (elapsed0, len) \<Rightarrow>
          (let elapsed = elapsed0 + 50;
               atBottom = (case parentRef of
                             Some el \<Rightarrow> scrollHeight el - scrollTop el - clientHeight el < 50
                           | None \<Rightarrow> False)
           in if atBottom \<or> elapsed \<ge> 500
              then s\<lparr>vi_interval := None\<rparr>
              else s\<lparr>vi_scrolls := vi_scrolls s @ [ScrollToIndex (len - 1) AlignEnd],
                     vi_interval := Some (elapsed, len)\<rparr>))"

text \<open>Mounted: the attempt effect, then the scroll effect, of the first render.\<close>

definition vi_mount :: "'n vi_state" where
  "vi_mount = vi_scrollEffect (vi_attemptEffect vi_initial)"

definition vi_unmount :: "'n vi_state \<Rightarrow> 'n vi_state" where
  "vi_unmount s = s\<lparr>vi_interval := None\<rparr>"

datatype 'n vi_event =
    ViAttemptChanged
  | ViEntriesUpdated "'n patch list" AddEntryType bool
  | ViTick "element option"

text \<open>The scroll effect depends on \<open>entries.length\<close> and runs when it changed.\<close>

fun vi_handle :: "'n vi_state \<Rightarrow> 'n vi_event \<Rightarrow> 'n vi_state" where
  "vi_handle s ViAttemptChanged = vi_attemptEffect s"
| "vi_handle s (ViEntriesUpdated newEntries addType newLoading) =
     vi_onEntriesUpdated newEntries addType newLoading s"
| "vi_handle s (ViTick parentRef) = vi_tick parentRef s"

definition vi_step :: "'n vi_state \<Rightarrow> 'n vi_event \<Rightarrow> 'n vi_state" where
  "vi_step s ev =
     (let h = vi_handle s ev
      in if length (vi_entries h) \<noteq> length (vi_entries s) then vi_scrollEffect h else h)"

section \<open>Rendering the conversation lists\<close>

text \<open>
  A rendered row is the wrapper \<open>div\<close> with its key (the patch key the key string is
  built from) and \<open>data-index\<close>, around a paragraph of text or the entry component with
  its \<open>expansionKey\<close>, \<open>entry\<close> and \<open>executionProcessId\<close>.
\<close>

datatype 'n conv_body = Paragraph string | DisplayEntry string 'n string

record 'n conv_row =
  cr_key :: string
  cr_index :: nat
  cr_body :: "'n conv_body"

fun conv_row_of :: "'n patch \<Rightarrow> nat \<Rightarrow> 'n conv_row" where
  "conv_row_of (P_STDOUT c k) i = \<lparr>cr_key = k, cr_index = i, cr_body = Paragraph c\<rparr>"
| "conv_row_of (P_STDERR c k) i = \<lparr>cr_key = k, cr_index = i, cr_body = Paragraph c\<rparr>"
| "conv_row_of (P_NORMALIZED_ENTRY c k p) i =
     \<lparr>cr_key = k, cr_index = i, cr_body = DisplayEntry k c p\<rparr>"

text \<open>
  \<open>ConversationList\<close> and the scroll-tracking \<open>VirtualizedList\<close> read \<open>data.type\<close>
  unguarded.
\<close>

fun conv_rows :: "nat list \<Rightarrow> 'n patch list \<Rightarrow> js_error + 'n conv_row list" where
  "conv_rows [] entries = Inr []"
| "conv_rows (i # vis) entries =
     (if i < length entries
      then (case conv_rows vis entries of
              Inl e \<Rightarrow> Inl e
            | Inr rows \<Rightarrow> Inr (conv_row_of (entries ! i) i # rows))
      else Inl TypeError)"

text \<open>
  The interval-driven \<open>VirtualizedList\<close> renders nothing for a missing entry
  (\<open>if (!data) return null\<close>).
\<close>

fun vi_rows :: "nat list \<Rightarrow> 'n patch list \<Rightarrow> 'n conv_row option list" where
  "vi_rows [] entries = []"
| "vi_rows (i # vis) entries =
     (if i < length entries then Some (conv_row_of (entries ! i) i) else None)
       # vi_rows vis entries"

text \<open>The entry a rendered row shows, read back from what was handed to the row.\<close>

definition shown_log :: "raw_log_text \<Rightarrow> string \<times> channel" where
  "shown_log r = (rlt_content r, rlt_channel r)"

definition shown_vpl :: "vpl_row \<Rightarrow> string \<times> channel" where
  "shown_vpl r = (vr_content r, vr_channel r)"

text \<open>
  What an entry has to show: a log entry its text on the channel of its tag; a
  conversation entry its text as a paragraph, or, when normalized, the entry itself under
  its patch key with its process id.
\<close>

fun log_shows :: "log_entry \<Rightarrow> string \<times> channel" where
  "log_shows (STDOUT c) = (c, Ch_stdout)"
| "log_shows (STDERR c) = (c, Ch_stderr)"

fun patchKey :: "'n patch \<Rightarrow> string" where
  "patchKey (P_STDOUT c k) = k"
| "patchKey (P_STDERR c k) = k"
| "patchKey (P_NORMALIZED_ENTRY c k p) = k"

fun patch_shows :: "'n patch \<Rightarrow> string + string \<times> 'n \<times> string" where
  "patch_shows (P_STDOUT c k) = Inl c"
| "patch_shows (P_STDERR c k) = Inl c"
| "patch_shows (P_NORMALIZED_ENTRY c k p) = Inr (k, c, p)"

fun shown_body :: "'n conv_body \<Rightarrow> string + string \<times> 'n \<times> string" where
  "shown_body (Paragraph c) = Inl c"
| "shown_body (DisplayEntry k c p) = Inr (k, c, p)"

definition shown_conv :: "'n conv_row \<Rightarrow> string + string \<times> 'n \<times> string" where
  "shown_conv r = shown_body (cr_body r)"



section \<open>Runs of the components\<close>

text \<open>A run is a list of events handled in order, starting from some state.\<close>

definition lv_steps :: "lv_state \<Rightarrow> lv_event list \<Rightarrow> lv_state" where
  "lv_steps s evs = foldl lv_step s evs"

definition vs_steps :: "vs_state \<Rightarrow> vs_event list \<Rightarrow> vs_state" where
  "vs_steps s evs = foldl vs_step s evs"

definition vl_steps :: "'n vl_state \<Rightarrow> 'n vl_event list \<Rightarrow> 'n vl_state" where
  "vl_steps s evs = foldl vl_step s evs"

definition vi_steps :: "'n vi_state \<Rightarrow> 'n vi_event list \<Rightarrow> 'n vi_state" where
  "vi_steps s evs = foldl vi_step s evs"


fun lv_has_data :: "lv_event \<Rightarrow> bool" where
  "lv_has_data (LogsLength len) = (len > 0)"
| "lv_has_data _ = False"

fun vs_has_data :: "vs_event \<Rightarrow> bool" where
  "vs_has_data (VsLogsLength len) = (len > 0)"
| "vs_has_data _ = False"

definition cl_steps :: "'n cl_state \<Rightarrow> 'n cl_event list \<Rightarrow> 'n cl_state" where
  "cl_steps s evs = foldl cl_step s evs"

text \<open>
  A call of \<open>onEntriesUpdated\<close> as an event: the \<open>loading\<close> captured by the instance
  called, and the update handed to it.
\<close>

definition update_event :: "bool \<times> 'n pending_update \<Rightarrow> 'n cl_event" where
  "update_event cu =
     EntriesUpdated (fst cu) (pu_entries (snd cu)) (pu_addType (snd cu)) (pu_loading (snd cu))"

text \<open>
  What holds of the timeout table in every reachable state: a live timeout is the one
  \<open>debounceTimeoutRef\<close> names, and its id is positive.
\<close>

definition cl_inv :: "'n cl_state \<Rightarrow> bool" where
  "cl_inv s =
     (0 < cl_nextTimerId s \<and>
      list_all (\<lambda>t. cl_debounceTimeoutRef s = Some (fst t) \<and> fst t \<noteq> 0) (cl_timeouts s))"


section \<open>Helper lemmas\<close>

lemma cl_commit_frame [simp]:
  "cl_entries (cl_commit s) = cl_entries s"
  "cl_loading (cl_commit s) = cl_loading s"
  "cl_atBottom (cl_commit s) = cl_atBottom s"
  "cl_addTypeRef (cl_commit s) = cl_addTypeRef s"
  "cl_pendingUpdateRef (cl_commit s) = cl_pendingUpdateRef s"
  "cl_debounceTimeoutRef (cl_commit s) = cl_debounceTimeoutRef s"
  "cl_timeouts (cl_commit s) = cl_timeouts s"
  "cl_nextTimerId (cl_commit s) = cl_nextTimerId s"
  "cl_context (cl_commit s) = cl_context s"
  by (simp_all add: cl_commit_def cl_initScrollEffect_def cl_autoScrollEffect_def Let_def)

lemma cl_inv_commit [simp]: "cl_inv (cl_commit s) = cl_inv s"
  by (simp add: cl_inv_def)

lemma cl_inv_mount: "cl_inv cl_mount"
  by (simp add: cl_inv_def cl_mount_def cl_attemptEffect_def cl_initial_def)

lemma clearDebounce_empties:
  assumes "cl_inv s"
  shows "cl_timeouts (clearDebounce s) = []"
proof (cases "cl_timeouts s")
  case Nil
  then show ?thesis
    by (simp add: clearDebounce_def clearTimeout_def split: option.splits)
next
  case (Cons t ts)
  with assms obtain i where i: "cl_debounceTimeoutRef s = Some i" "i \<noteq> 0"
    by (auto simp: cl_inv_def)
  from assms i have "\<forall>t \<in> set (cl_timeouts s). fst t = i"
    by (auto simp: cl_inv_def list_all_iff)
  then have "filter (\<lambda>t. fst t \<noteq> i) (cl_timeouts s) = []"
    by (simp add: filter_empty_conv)
  with i show ?thesis
    by (simp add: clearDebounce_def clearTimeout_def)
qed

lemma clearDebounce_frame [simp]:
  "cl_entries (clearDebounce s) = cl_entries s"
  "cl_loading (clearDebounce s) = cl_loading s"
  "cl_addTypeRef (clearDebounce s) = cl_addTypeRef s"
  "cl_pendingUpdateRef (clearDebounce s) = cl_pendingUpdateRef s"
  "cl_debounceTimeoutRef (clearDebounce s) = cl_debounceTimeoutRef s"
  "cl_nextTimerId (clearDebounce s) = cl_nextTimerId s"
  "cl_context (clearDebounce s) = cl_context s"
  "cl_didInitScroll (clearDebounce s) = cl_didInitScroll s"
  by (simp_all add: clearDebounce_def clearTimeout_def split: option.splits)

lemma update_handle:
  assumes "cl_inv s"
  shows "cl_timeouts (cl_onEntriesUpdated c e t l s) = [(cl_nextTimerId s, 100, c)]"
    and "cl_debounceTimeoutRef (cl_onEntriesUpdated c e t l s) = Some (cl_nextTimerId s)"
    and "cl_nextTimerId (cl_onEntriesUpdated c e t l s) = cl_nextTimerId s + 1"
    and "cl_pendingUpdateRef (cl_onEntriesUpdated c e t l s)
           = Some \<lparr>pu_entries = e, pu_addType = t, pu_loading = l\<rparr>"
    and "cl_entries (cl_onEntriesUpdated c e t l s) = cl_entries s"
    and "cl_loading (cl_onEntriesUpdated c e t l s) = cl_loading s"
    and "cl_context (cl_onEntriesUpdated c e t l s) = cl_context s"
    and "cl_addTypeRef (cl_onEntriesUpdated c e t l s) = cl_addTypeRef s"
proof -
  have inv1: "cl_inv (s\<lparr>cl_pendingUpdateRef :=
                   Some \<lparr>pu_entries = e, pu_addType = t, pu_loading = l\<rparr>\<rparr>)"
    using assms by (simp add: cl_inv_def)
  note E = clearDebounce_empties [OF inv1]
  show "cl_timeouts (cl_onEntriesUpdated c e t l s) = [(cl_nextTimerId s, 100, c)]"
    using E by (simp add: cl_onEntriesUpdated_def Let_def)
qed (simp_all add: cl_onEntriesUpdated_def Let_def)

lemma cl_inv_update:
  assumes "cl_inv s"
  shows "cl_inv (cl_onEntriesUpdated c e t l s)"
  using assms update_handle [OF assms, of c e t l]
  by (simp add: cl_inv_def)

lemma fire_found:
  assumes "cl_inv s" and "filter (\<lambda>t. fst t = tid) (cl_timeouts s) = t # ts"
  shows "cl_timeouts (clearTimeout tid s) = []"
proof -
  have "t \<in> set (filter (\<lambda>t. fst t = tid) (cl_timeouts s))"
    by (simp add: assms(2))
  then have mem: "t \<in> set (cl_timeouts s)" and tid: "fst t = tid"
    by simp_all
  from assms(1) have all: "\<forall>t' \<in> set (cl_timeouts s). cl_debounceTimeoutRef s = Some (fst t')"
    by (simp add: cl_inv_def list_all_iff)
  with mem tid have "cl_debounceTimeoutRef s = Some tid" by blast
  with all have "\<forall>t' \<in> set (cl_timeouts s). fst t' = tid"
    by (metis option.inject)
  then show "cl_timeouts (clearTimeout tid s) = []"
    by (simp add: clearTimeout_def filter_empty_conv)
qed

lemma cl_inv_fire:
  assumes "cl_inv s"
  shows "cl_inv (cl_fire tid s)"
proof (cases "filter (\<lambda>t. fst t = tid) (cl_timeouts s)")
  case Nil
  then show ?thesis using assms by (simp add: cl_fire_def)
next
  case (Cons t ts)
  from fire_found [OF assms Cons] assms
  show ?thesis
    by (simp add: cl_fire_def Cons cl_applyPending_def cl_inv_def clearTimeout_def Let_def
        split: option.splits)
qed

lemma cl_inv_step:
  assumes "cl_inv s"
  shows "cl_inv (cl_step s ev)"
proof (cases ev)
  case AttemptChanged
  then show ?thesis using assms
    by (simp add: cl_inv_def cl_attemptEffect_def)
next
  case (EntriesUpdated c e t l)
  then show ?thesis using cl_inv_update [OF assms] by simp
next
  case (TimeoutFires tid)
  then show ?thesis using cl_inv_fire [OF assms] by simp
next
  case (Scrolled p)
  then show ?thesis using assms
    by (simp add: cl_inv_def cl_checkAtBottom_def split: option.splits)
next
  case Rendered
  then show ?thesis using assms by simp
qed

lemma cl_inv_steps: "cl_inv s \<Longrightarrow> cl_inv (cl_steps s evs)"
  unfolding cl_steps_def by (induction evs arbitrary: s) (simp_all add: cl_inv_step)

lemma cl_inv_reachable: "cl_inv (cl_steps cl_mount evs)"
  by (rule cl_inv_steps [OF cl_inv_mount])

lemma burst:
  assumes "cl_inv s" and "us \<noteq> []"
  shows "cl_timeouts (cl_steps s (map update_event us))
           = [(cl_nextTimerId s + length us - 1, 100, fst (last us))]
       \<and> cl_debounceTimeoutRef (cl_steps s (map update_event us))
           = Some (cl_nextTimerId s + length us - 1)
       \<and> cl_pendingUpdateRef (cl_steps s (map update_event us)) = Some (snd (last us))
       \<and> cl_entries (cl_steps s (map update_event us)) = cl_entries s
       \<and> cl_loading (cl_steps s (map update_event us)) = cl_loading s
       \<and> cl_addTypeRef (cl_steps s (map update_event us)) = cl_addTypeRef s
       \<and> cl_context (cl_steps s (map update_event us)) = cl_context s"
  using assms
proof (induction us arbitrary: s)
  case Nil
  then show ?case by simp
next
  case (Cons u us)
  let ?s1 = "cl_step s (update_event u)"
  have inv1: "cl_inv ?s1" by (rule cl_inv_step [OF Cons.prems(1)])
  note H = update_handle [OF Cons.prems(1), of "fst u" "pu_entries (snd u)"
             "pu_addType (snd u)" "pu_loading (snd u)"]
  have s1: "cl_timeouts ?s1 = [(cl_nextTimerId s, 100, fst u)]"
       "cl_debounceTimeoutRef ?s1 = Some (cl_nextTimerId s)"
       "cl_nextTimerId ?s1 = cl_nextTimerId s + 1"
       "cl_pendingUpdateRef ?s1 = Some (snd u)"
       "cl_entries ?s1 = cl_entries s"
       "cl_loading ?s1 = cl_loading s"
       "cl_context ?s1 = cl_context s"
       "cl_addTypeRef ?s1 = cl_addTypeRef s"
    using H by (simp_all add: update_event_def)
  show ?case
  proof (cases "us = []")
    case True
    then show ?thesis using s1 by (simp add: cl_steps_def)
  next
    case False
    from Cons.IH [OF inv1 False] s1 False show ?thesis
      by (simp add: cl_steps_def)
  qed
qed

lemma fire_single:
  assumes "cl_timeouts b = [(tid, d, c)]" and "cl_pendingUpdateRef b = Some u"
  shows "cl_entries (cl_step b (TimeoutFires tid)) = pu_entries u"
    and "cl_addTypeRef (cl_step b (TimeoutFires tid)) = pu_addType u"
    and "cl_context (cl_step b (TimeoutFires tid)) = cl_context b @ [SetEntries (pu_entries u)]"
    and "cl_timeouts (cl_step b (TimeoutFires tid)) = []"
    and "cl_loading (cl_step b (TimeoutFires tid)) = (if c then pu_loading u else cl_loading b)"
  using assms
  by (simp_all add: cl_fire_def cl_applyPending_def clearTimeout_def Let_def)

lemma plv_rows_map:
  "list_all (\<lambda>i. i < length logs) vis \<Longrightarrow>
     plv_rows vis logs = Inr (map (\<lambda>i. formatLogLine (logs ! i) i) vis)"
  by (induction vis) simp_all

lemma logsWithKeys_nth:
  "i < length logs \<Longrightarrow>
     logsWithKeys logs ! i = \<lparr>lk_entry = logs ! i, lk_key = i, lk_originalIndex = i\<rparr>"
  by (simp add: logsWithKeys_def nth_enumerate_eq)

lemma vpl_rows_map:
  "list_all (\<lambda>i. i < length logs) vis \<Longrightarrow>
     vpl_rows q mi cmi vis (logsWithKeys logs) =
       Inr (map (\<lambda>i. vpl_row_of q mi cmi
                  \<lparr>lk_entry = logs ! i, lk_key = i, lk_originalIndex = i\<rparr>) vis)"
  by (induction vis) (simp_all add: logsWithKeys_nth, simp add: logsWithKeys_def)

lemma conv_rows_map:
  "list_all (\<lambda>i. i < length entries) vis \<Longrightarrow>
     conv_rows vis entries = Inr (map (\<lambda>i. conv_row_of (entries ! i) i) vis)"
  by (induction vis) simp_all

lemma vi_rows_map:
  "list_all (\<lambda>i. i < length entries) vis \<Longrightarrow>
     vi_rows vis entries = map (\<lambda>i. Some (conv_row_of (entries ! i) i)) vis"
  by (induction vis) simp_all

lemmas cl_eval = cl_steps_def cl_onEntriesUpdated_def clearDebounce_def
  clearTimeout_def cl_fire_def cl_applyPending_def cl_checkAtBottom_def cl_commit_def
  cl_initScrollEffect_def cl_autoScrollEffect_def cl_attemptEffect_def cl_mount_def
  cl_initial_def Let_def

lemmas vl_eval = vl_steps_def vl_onEntriesUpdated_def vl_checkAtBottom_def
  vl_commit_def vl_initScrollEffect_def vl_autoScrollEffect_def vl_attemptEffect_def
  vl_mount_def vl_initial_def Let_def

lemmas vi_eval = vi_steps_def vi_step_def vi_onEntriesUpdated_def vi_scrollEffect_def
  vi_tick_def vi_attemptEffect_def vi_mount_def vi_initial_def Let_def

lemmas lv_eval = lv_steps_def lv_commit_def initScrollEffect_def autoScrollEffect_def
  lv_fire_def lv_checkAtBottom_def scrollToBottom_def isAtBottom_def lv_mount_def Let_def

lemmas vs_eval = vs_steps_def vs_commit_def vs_initScrollEffect_def vs_autoScrollEffect_def
  vs_checkAtBottom_def vs_mount_def Let_def




lemma vl_commit_frame [simp]:
  "vl_entries (vl_commit s) = vl_entries s"
  "vl_loading (vl_commit s) = vl_loading s"
  "vl_atBottom (vl_commit s) = vl_atBottom s"
  "vl_addTypeRef (vl_commit s) = vl_addTypeRef s"
  "vl_context (vl_commit s) = vl_context s"
  by (simp_all add: vl_commit_def vl_initScrollEffect_def vl_autoScrollEffect_def Let_def)





lemma lv_run_didInit [simp]: "didInitScroll (lv_run p task s) = didInitScroll s"
  by (cases task) (simp_all add: Let_def)

lemma lv_step_didInit:
  "didInitScroll (lv_step s ev) = (didInitScroll s \<or> lv_has_data ev)"
  by (cases ev)
     (auto simp: lv_commit_def initScrollEffect_def autoScrollEffect_def lv_fire_def
        lv_checkAtBottom_def Let_def)

lemma lv_init_request:
  "count_list (drop (length (timers s)) (timers (initScrollEffect len s))) (50, DoScroll 3)
     = (if \<not> didInitScroll s \<and> len > 0 then 1 else 0)"
  by (simp add: initScrollEffect_def)

lemma lv_init_jumps_eq:
  "lv_init_jumps s evs = (if \<not> didInitScroll s \<and> list_ex lv_has_data evs then 1 else 0)"
proof (induction evs arbitrary: s)
  case Nil
  then show ?case by simp
next
  case (Cons ev evs)
  show ?case
  proof (cases ev)
    case (LogsLength len)
    have "lv_init_jumps s (ev # evs)
            = (if \<not> didInitScroll s \<and> len > 0 then 1 else 0)
                + lv_init_jumps (lv_step s ev) evs"
      by (simp only: LogsLength lv_init_jumps.simps lv_init_request)
    then show ?thesis
      using LogsLength by (simp add: Cons.IH lv_step_didInit del: lv_step.simps)
  next
    case (Fire i p)
    then show ?thesis by (simp add: Cons.IH lv_step_didInit del: lv_step.simps)
  next
    case (Scroll p)
    then show ?thesis by (simp add: Cons.IH lv_step_didInit del: lv_step.simps)
  qed
qed

lemma vs_step_didInit:
  "vs_didInitScroll (vs_step s ev) = (vs_didInitScroll s \<or> vs_has_data ev)"
  by (cases ev)
     (auto simp: vs_commit_def vs_initScrollEffect_def vs_autoScrollEffect_def
        vs_checkAtBottom_def Let_def split: option.splits)

lemma vs_init_request:
  "count_list (drop (length (vs_raf s)) (vs_raf (vs_initScrollEffect len s)))
       (ScrollToIndex (len - 1) AlignEnd)
     = (if \<not> vs_didInitScroll s \<and> len > 0 then 1 else 0)"
  by (simp add: vs_initScrollEffect_def)

lemma vs_init_jumps_eq:
  "vs_init_jumps s evs = (if \<not> vs_didInitScroll s \<and> list_ex vs_has_data evs then 1 else 0)"
proof (induction evs arbitrary: s)
  case Nil
  then show ?case by simp
next
  case (Cons ev evs)
  show ?case
  proof (cases ev)
    case (VsLogsLength len)
    have "vs_init_jumps s (ev # evs)
            = (if \<not> vs_didInitScroll s \<and> len > 0 then 1 else 0)
                + vs_init_jumps (vs_step s ev) evs"
      by (simp only: VsLogsLength vs_init_jumps.simps vs_init_request)
    then show ?thesis
      using VsLogsLength by (simp add: Cons.IH vs_step_didInit del: vs_step.simps)
  next
    case (VsScroll p)
    then show ?thesis by (simp add: Cons.IH vs_step_didInit del: vs_step.simps)
  qed
qed

lemma cl_step_didInit:
  "\<not> is_attempt_change ev \<Longrightarrow>
     cl_didInitScroll (cl_step s ev)
       = (cl_didInitScroll s \<or> (ev = Rendered \<and> length (cl_entries s) > 0 \<and> \<not> cl_loading s))"
  by (cases ev)
     (auto simp: cl_onEntriesUpdated_def cl_fire_def cl_applyPending_def clearTimeout_def
        cl_checkAtBottom_def cl_commit_def cl_initScrollEffect_def cl_autoScrollEffect_def
        Let_def split: option.splits list.splits)

lemma cl_init_request:
  "count_list (drop (length (cl_raf s)) (cl_raf (cl_initScrollEffect s)))
       (ScrollToIndex (length (cl_entries s) - 1) AlignEnd)
     = (if \<not> cl_didInitScroll s \<and> length (cl_entries s) > 0 \<and> \<not> cl_loading s then 1 else 0)"
  by (simp add: cl_initScrollEffect_def)

lemma cl_init_jumps_eq:
  assumes "list_all (\<lambda>e. \<not> is_attempt_change e) evs"
  shows "cl_init_jumps s evs = (if \<not> cl_didInitScroll s \<and> cl_ever_ready s evs then 1 else 0)"
  using assms
proof (induction evs arbitrary: s)
  case Nil
  then show ?case by simp
next
  case (Cons ev evs)
  from Cons.prems have na: "\<not> is_attempt_change ev"
    and rest: "list_all (\<lambda>e. \<not> is_attempt_change e) evs" by simp_all
  note IH = Cons.IH [OF rest, of "cl_step s ev"]
  note D = cl_step_didInit [OF na, of s]
  show ?case
  proof (cases ev)
    case Rendered
    have "cl_init_jumps s (ev # evs)
            = (if \<not> cl_didInitScroll s \<and> length (cl_entries s) > 0 \<and> \<not> cl_loading s
               then 1 else 0)
                + cl_init_jumps (cl_step s ev) evs"
      by (simp only: Rendered cl_init_jumps.simps cl_init_request)
    with IH D Rendered show ?thesis by (auto simp del: cl_step.simps)
  next
    case AttemptChanged
    with na show ?thesis by simp
  next
    case (EntriesUpdated c e t l)
    with IH D show ?thesis by (simp del: cl_step.simps)
  next
    case (TimeoutFires tid)
    with IH D show ?thesis by (simp del: cl_step.simps)
  next
    case (Scrolled p)
    with IH D show ?thesis by (simp del: cl_step.simps)
  qed
qed

lemma vl_step_didInit:
  "\<not> vl_is_attempt_change ev \<Longrightarrow>
     vl_didInitScroll (vl_step s ev)
       = (vl_didInitScroll s \<or> (ev = VlRendered \<and> length (vl_entries s) > 0 \<and> \<not> vl_loading s))"
  by (cases ev)
     (auto simp: vl_onEntriesUpdated_def vl_checkAtBottom_def vl_commit_def
        vl_initScrollEffect_def vl_autoScrollEffect_def Let_def split: option.splits)

lemma vl_init_request:
  "count_list (drop (length (vl_raf s)) (vl_raf (vl_initScrollEffect s)))
       (ScrollToIndex (length (vl_entries s) - 1) AlignEnd)
     = (if \<not> vl_didInitScroll s \<and> length (vl_entries s) > 0 \<and> \<not> vl_loading s then 1 else 0)"
  by (simp add: vl_initScrollEffect_def)

lemma vl_init_jumps_eq:
  assumes "list_all (\<lambda>e. \<not> vl_is_attempt_change e) evs"
  shows "vl_init_jumps s evs = (if \<not> vl_didInitScroll s \<and> vl_ever_ready s evs then 1 else 0)"
  using assms
proof (induction evs arbitrary: s)
  case Nil
  then show ?case by simp
next
  case (Cons ev evs)
  from Cons.prems have na: "\<not> vl_is_attempt_change ev"
    and rest: "list_all (\<lambda>e. \<not> vl_is_attempt_change e) evs" by simp_all
  note IH = Cons.IH [OF rest, of "vl_step s ev"]
  note D = vl_step_didInit [OF na, of s]
  show ?case
  proof (cases ev)
    case VlRendered
    have "vl_init_jumps s (ev # evs)
            = (if \<not> vl_didInitScroll s \<and> length (vl_entries s) > 0 \<and> \<not> vl_loading s
               then 1 else 0)
                + vl_init_jumps (vl_step s ev) evs"
      by (simp only: VlRendered vl_init_jumps.simps vl_init_request)
    with IH D VlRendered show ?thesis by (auto simp del: vl_step.simps)
  next
    case VlAttemptChanged
    with na show ?thesis by simp
  next
    case (VlEntriesUpdated c e t l)
    with IH D show ?thesis by (simp del: vl_step.simps)
  next
    case (VlScrolled p)
    with IH D show ?thesis by (simp del: vl_step.simps)
  qed
qed

lemma cl_unmount_no_timeouts:
  "cl_timeouts (cl_unmount (cl_steps cl_mount evs)) = []"
  unfolding cl_unmount_def by (rule clearDebounce_empties [OF cl_inv_reachable])

section \<open>The at-bottom check\<close>

text \<open>
  Claim C3. On a scroll event the container exists, and each component with a scroll
  handler decides "at bottom" as \<open>scrollHeight - scrollTop - clientHeight\<close> strictly
  below its threshold and by nothing else: 50 in the log viewers (the timer-driven ones
  compute the value and keep no copy, so the handler leaves the state as it was), 100 in
  \<open>ConversationList\<close> and the scroll-tracking \<open>VirtualizedList\<close>.
\<close>

theorem at_bottom_is_distance_below_threshold:
  "isAtBottom (Some el) = (distanceFromBottom el < 50)
   \<and> lv_step s (Scroll (Some el)) = s
   \<and> vs_atBottom (vs_step vs (VsScroll (Some el))) = (distanceFromBottom el < 50)
   \<and> cl_atBottom (cl_checkAtBottom (Some el) cs) = (distanceFromBottom el < 100)
   \<and> vl_atBottom (vl_checkAtBottom (Some el) ls) = (distanceFromBottom el < 100)"
  by (simp add: isAtBottom_def distanceFromBottom_def lv_checkAtBottom_def
      vs_checkAtBottom_def cl_checkAtBottom_def vl_checkAtBottom_def)

section \<open>A missing scroll container\<close>

text \<open>
  Claim C8. With a null container reference every operation that touches the container
  takes its guarded branch: \<open>scrollToBottom\<close> makes no call, so neither timer callback
  scrolls; the log viewers' \<open>isAtBottom\<close> answers true; the scroll handlers of the
  components that cache the flag leave the state unchanged; the interval callback of the
  interval-driven \<open>VirtualizedList\<close> takes "not at bottom" and goes on as its elapsed
  time says.
\<close>

theorem missing_container_is_harmless:
  "scrollToBottom None b = []
   \<and> isAtBottom None = True
   \<and> scrolls (lv_run None (DoScroll n) s) = scrolls s
   \<and> lv_run None AutoScrollCheck s = s
   \<and> lv_checkAtBottom None s = s
   \<and> vs_checkAtBottom None vs = vs
   \<and> cl_checkAtBottom None cs = cs
   \<and> vl_checkAtBottom None ls = ls
   \<and> vi_tick None (is\<lparr>vi_interval := Some (elapsed, len)\<rparr>) =
       (if elapsed + 50 \<ge> 500 then is\<lparr>vi_interval := None\<rparr>
        else is\<lparr>vi_scrolls := vi_scrolls is @ [ScrollToIndex (len - 1) AlignEnd],
                vi_interval := Some (elapsed + 50, len)\<rparr>)"
  by (simp add: scrollToBottom_def isAtBottom_def lv_checkAtBottom_def
      vs_checkAtBottom_def cl_checkAtBottom_def vl_checkAtBottom_def vi_tick_def Let_def)

section \<open>A change of attempt\<close>


section \<open>The error view\<close>

text \<open>
  Claim C2, as stated, fails on the empty string: the components test the error prop for
  truthiness, and \<open>""\<close> is a non-null string that is falsy. With \<open>error = ""\<close> the log
  rows are rendered (or "no logs" when there is none).
\<close>

theorem empty_error_string_renders_rows:
  "plv_render [0] [STDOUT ''line''] (Some '''')
     = Inr (ListView [\<lparr>rlt_key = 0, rlt_content = ''line'', rlt_channel = Ch_stdout\<rparr>])
   \<and> vpl_render [0] [STDERR ''line''] (Some '''') ''q'' [] 0
     = Inr (ListView [\<lparr>vr_key = 0, vr_content = ''line'', vr_channel = Ch_stderr,
                       vr_searchQuery = None, vr_isCurrentMatch = False\<rparr>])
   \<and> plv_render [] [] (Some '''') = Inr NoLogsAvailable"
  by (simp add: plv_render_def vpl_render_def truthy_def formatLogLine_def logsWithKeys_def
      vpl_row_of_def matchAt_def)

text \<open>
  Claim C2, amended. Whenever the error prop is a non-null, non-empty string, the
  component renders that string in place of the list, whatever the entries and the
  visible rows are, so with an empty list as with a non-empty one.
\<close>

theorem error_replaces_list:
  assumes "msg \<noteq> []"
  shows "plv_render vis logs (Some msg) = Inr (ErrorView msg)
       \<and> vpl_render vis logs (Some msg) q mi cmi = Inr (ErrorView msg)"
  using assms by (simp add: plv_render_def vpl_render_def truthy_def)

theorem error_replaces_list_witness:
  "''boom'' \<noteq> []
   \<and> plv_render [] [] (Some ''boom'') = Inr (ErrorView ''boom'')
   \<and> plv_render [0] [STDOUT ''line''] (Some ''boom'') = Inr (ErrorView ''boom'')
   \<and> vpl_render [] [] (Some ''boom'') ''q'' [0] 0 = Inr (ErrorView ''boom'')
   \<and> vpl_render [0] [STDOUT ''line''] (Some ''boom'') ''q'' [0] 0 = Inr (ErrorView ''boom'')"
  using error_replaces_list [of "''boom''" "[]" "[]" "''q''" "[0]" 0]
        error_replaces_list [of "''boom''" "[0]" "[STDOUT ''line'']" "''q''" "[0]" 0]
  by simp

section \<open>Rows in received order\<close>

text \<open>
  Claim C4. For every entry list and every list of virtual row indices inside it (the
  virtualization library's rows for \<open>count = length\<close>), each component renders one row
  per virtual row, in their order, and the row for virtual index \<open>i\<close> carries \<open>i\<close> as
  its key or \<open>data-index\<close> and shows entry \<open>i\<close> of the input: for a log entry its text
  on its channel, for a conversation entry its patch key and its text, or the normalized
  entry with its process id. With every index visible the rows show the input list as
  it was received: nothing reordered, left out or repeated.
\<close>

theorem rows_follow_input_order:
  assumes "list_all (\<lambda>i. i < length logs) vis"
      and "list_all (\<lambda>i. i < length entries) cvis"
  shows "(\<exists>rows. plv_rows vis logs = Inr rows
            \<and> map rlt_key rows = vis
            \<and> map shown_log rows = map (\<lambda>i. log_shows (logs ! i)) vis)
       \<and> (\<exists>rows. vpl_rows q mi cmi vis (logsWithKeys logs) = Inr rows
            \<and> map vr_key rows = vis
            \<and> map shown_vpl rows = map (\<lambda>i. log_shows (logs ! i)) vis)
       \<and> (\<exists>rows. conv_rows cvis entries = Inr rows
            \<and> vi_rows cvis entries = map Some rows
            \<and> map cr_index rows = cvis
            \<and> map cr_key rows = map (\<lambda>i. patchKey (entries ! i)) cvis
            \<and> map shown_conv rows = map (\<lambda>i. patch_shows (entries ! i)) cvis)
       \<and> map_sum id (map shown_log) (plv_rows [0..<length logs] logs)
           = Inr (map log_shows logs)
       \<and> map_sum id (map shown_vpl) (vpl_rows q mi cmi [0..<length logs] (logsWithKeys logs))
           = Inr (map log_shows logs)
       \<and> map_sum id (map shown_conv) (conv_rows [0..<length entries] entries)
           = Inr (map patch_shows entries)
       \<and> map (map_option shown_conv) (vi_rows [0..<length entries] entries)
           = map (\<lambda>e. Some (patch_shows e)) entries"
proof -
  have full: "\<And>xs :: 'x list. list_all (\<lambda>i. i < length xs) [0..<length xs]"
    by (simp add: list_all_iff)
  have nth: "map (\<lambda>i. f (xs ! i)) [0..<length xs] = map f xs" for f :: "'x \<Rightarrow> 'y" and xs
  proof -
    have "map (\<lambda>i. f (xs ! i)) [0..<length xs] = map f (map ((!) xs) [0..<length xs])"
      by (simp add: comp_def)
    also have "\<dots> = map f xs" by (simp only: map_nth)
    finally show ?thesis .
  qed
  have formatLogLine_shows:
    "shown_log (formatLogLine e i) = log_shows e \<and> rlt_key (formatLogLine e i) = i" for e i
    by (cases e) (simp_all add: shown_log_def formatLogLine_def)
  have vpl_row_of_shows:
    "shown_vpl (vpl_row_of q mi cmi \<lparr>lk_entry = e, lk_key = i, lk_originalIndex = i\<rparr>)
       = log_shows e
     \<and> vr_key (vpl_row_of q mi cmi \<lparr>lk_entry = e, lk_key = i, lk_originalIndex = i\<rparr>) = i"
    for e i
    by (cases e) (simp_all add: shown_vpl_def vpl_row_of_def)
  have conv_row_of_shows:
    "shown_conv (conv_row_of e i) = patch_shows e
     \<and> cr_key (conv_row_of e i) = patchKey e
     \<and> cr_index (conv_row_of e i) = i" for e :: "'a patch" and i
    by (cases e) (simp_all add: shown_conv_def)
  have a: "\<exists>rows. plv_rows vis logs = Inr rows
            \<and> map rlt_key rows = vis
            \<and> map shown_log rows = map (\<lambda>i. log_shows (logs ! i)) vis"
    using assms(1) by (simp add: plv_rows_map formatLogLine_shows comp_def)
  have b: "\<exists>rows. vpl_rows q mi cmi vis (logsWithKeys logs) = Inr rows
            \<and> map vr_key rows = vis
            \<and> map shown_vpl rows = map (\<lambda>i. log_shows (logs ! i)) vis"
    using assms(1) by (simp add: vpl_rows_map vpl_row_of_shows comp_def)
  have c: "\<exists>rows. conv_rows cvis entries = Inr rows
            \<and> vi_rows cvis entries = map Some rows
            \<and> map cr_index rows = cvis
            \<and> map cr_key rows = map (\<lambda>i. patchKey (entries ! i)) cvis
            \<and> map shown_conv rows = map (\<lambda>i. patch_shows (entries ! i)) cvis"
    using assms(2) by (simp add: conv_rows_map vi_rows_map conv_row_of_shows comp_def)
  have d: "map_sum id (map shown_log) (plv_rows [0..<length logs] logs)
           = Inr (map log_shows logs)"
    by (simp add: plv_rows_map [OF full] formatLogLine_shows comp_def nth)
  have e: "map_sum id (map shown_vpl) (vpl_rows q mi cmi [0..<length logs] (logsWithKeys logs))
           = Inr (map log_shows logs)"
    by (simp add: vpl_rows_map [OF full] vpl_row_of_shows comp_def nth)
  have f: "map_sum id (map shown_conv) (conv_rows [0..<length entries] entries)
           = Inr (map patch_shows entries)"
    by (simp add: conv_rows_map [OF full] conv_row_of_shows comp_def nth)
  have g: "map (map_option shown_conv) (vi_rows [0..<length entries] entries)
           = map (\<lambda>e. Some (patch_shows e)) entries"
    using nth [of "\<lambda>e. Some (patch_shows e)" entries]
    by (simp add: vi_rows_map [OF full] conv_row_of_shows comp_def)
  from a b c d e f g show ?thesis by blast
qed

theorem rows_follow_input_order_witness:
  "list_all (\<lambda>i. i < length [STDOUT ''a'', STDERR ''b'', STDOUT ''c'']) [1, 2]
   \<and> list_all (\<lambda>i. i < length [P_STDERR ''a'' ''k0'', P_NORMALIZED_ENTRY (7::nat) ''k1'' ''p'']) [0, 1]
   \<and> plv_rows [1, 2] [STDOUT ''a'', STDERR ''b'', STDOUT ''c'']
       = Inr [\<lparr>rlt_key = 1, rlt_content = ''b'', rlt_channel = Ch_stderr\<rparr>,
              \<lparr>rlt_key = 2, rlt_content = ''c'', rlt_channel = Ch_stdout\<rparr>]
   \<and> conv_rows [0, 1] [P_STDERR ''a'' ''k0'', P_NORMALIZED_ENTRY (7::nat) ''k1'' ''p'']
       = Inr [\<lparr>cr_key = ''k0'', cr_index = 0, cr_body = Paragraph ''a''\<rparr>,
              \<lparr>cr_key = ''k1'', cr_index = 1, cr_body = DisplayEntry ''k1'' 7 ''p''\<rparr>]
   \<and> map_sum id (map shown_conv)
        (conv_rows [0..<length [P_STDERR ''a'' ''k0'', P_NORMALIZED_ENTRY (7::nat) ''k1'' ''p'']]
           [P_STDERR ''a'' ''k0'', P_NORMALIZED_ENTRY (7::nat) ''k1'' ''p''])
       = Inr [Inl ''a'', Inr (''k1'', 7, ''p'')]"
proof -
  have h1: "list_all (\<lambda>i. i < length [STDOUT ''a'', STDERR ''b'', STDOUT ''c'']) [1, 2]"
    by simp
  have h2: "list_all (\<lambda>i. i < length [P_STDERR ''a'' ''k0'', P_NORMALIZED_ENTRY (7::nat) ''k1'' ''p'']) [0, 1]"
    by simp
  have r1: "plv_rows [1, 2] [STDOUT ''a'', STDERR ''b'', STDOUT ''c'']
       = Inr [\<lparr>rlt_key = 1, rlt_content = ''b'', rlt_channel = Ch_stderr\<rparr>,
              \<lparr>rlt_key = 2, rlt_content = ''c'', rlt_channel = Ch_stdout\<rparr>]"
    by (simp add: formatLogLine_def)
  have r2: "conv_rows [0, 1] [P_STDERR ''a'' ''k0'', P_NORMALIZED_ENTRY (7::nat) ''k1'' ''p'']
       = Inr [\<lparr>cr_key = ''k0'', cr_index = 0, cr_body = Paragraph ''a''\<rparr>,
              \<lparr>cr_key = ''k1'', cr_index = 1, cr_body = DisplayEntry ''k1'' 7 ''p''\<rparr>]"
    by simp
  from rows_follow_input_order [OF h1 h2, of "''q''" "[]" 0] h1 h2 r1 r2
  show ?thesis by simp
qed

section \<open>Debounced updates\<close>

text \<open>
  Claim C5. In \<open>ConversationList\<close>, after any history of the component, a burst of one
  or more \<open>onEntriesUpdated\<close> calls (through whichever callback instances) with no
  timeout firing in between leaves exactly one live timeout, with the full delay of
  100 ms, and has applied nothing: entries and context are as before the burst. When that
  timeout fires, the entries and add type of the last call of the burst are applied, and
  the context receives that one \<open>setEntries\<close> call only; the superseded updates are
  applied nowhere.
\<close>

theorem debounce_applies_last_update:
  assumes "us \<noteq> []"
  shows "let s = cl_steps cl_mount evs;
             b = cl_steps s (map update_event us);
             tid = cl_nextTimerId s + length us - 1;
             f = cl_step b (TimeoutFires tid)
         in cl_timeouts b = [(tid, 100, fst (last us))]
            \<and> cl_debounceTimeoutRef b = Some tid
            \<and> cl_entries b = cl_entries s
            \<and> cl_context b = cl_context s
            \<and> cl_entries f = pu_entries (snd (last us))
            \<and> cl_addTypeRef f = pu_addType (snd (last us))
            \<and> cl_context f = cl_context s @ [SetEntries (pu_entries (snd (last us)))]
            \<and> cl_timeouts f = []"
proof -
  let ?s = "cl_steps cl_mount evs"
  note B = burst [OF cl_inv_reachable assms, of evs]
  from B have t: "cl_timeouts (cl_steps ?s (map update_event us))
           = [(cl_nextTimerId ?s + length us - 1, 100, fst (last us))]"
    and p: "cl_pendingUpdateRef (cl_steps ?s (map update_event us)) = Some (snd (last us))"
    by simp_all
  note F = fire_single [OF t p]
  show ?thesis using B F by (simp add: Let_def)
qed

theorem debounce_applies_last_update_witness:
  "[(True, \<lparr>pu_entries = [P_STDOUT ''a'' ''k0''], pu_addType = ''running'', pu_loading = True\<rparr>),
    (True, \<lparr>pu_entries = [P_STDOUT ''a'' ''k0'', P_NORMALIZED_ENTRY (7::nat) ''k1'' ''p''],
            pu_addType = ''plan'', pu_loading = False\<rparr>)] \<noteq> []
   \<and> cl_timeouts
        (cl_steps (cl_steps cl_mount [])
          (map update_event
            [(True, \<lparr>pu_entries = [P_STDOUT ''a'' ''k0''], pu_addType = ''running'',
                     pu_loading = True\<rparr>),
             (True, \<lparr>pu_entries = [P_STDOUT ''a'' ''k0'', P_NORMALIZED_ENTRY (7::nat) ''k1'' ''p''],
                     pu_addType = ''plan'', pu_loading = False\<rparr>)]))
       = [(2, 100, True)]
   \<and> cl_entries
        (cl_step
          (cl_steps (cl_steps cl_mount [])
            (map update_event
              [(True, \<lparr>pu_entries = [P_STDOUT ''a'' ''k0''], pu_addType = ''running'',
                       pu_loading = True\<rparr>),
               (True, \<lparr>pu_entries = [P_STDOUT ''a'' ''k0'', P_NORMALIZED_ENTRY (7::nat) ''k1'' ''p''],
                       pu_addType = ''plan'', pu_loading = False\<rparr>)]))
          (TimeoutFires 2))
       = [P_STDOUT ''a'' ''k0'', P_NORMALIZED_ENTRY 7 ''k1'' ''p'']
   \<and> cl_context
        (cl_step
          (cl_steps (cl_steps cl_mount [])
            (map update_event
              [(True, \<lparr>pu_entries = [P_STDOUT ''a'' ''k0''], pu_addType = ''running'',
                       pu_loading = True\<rparr>),
               (True, \<lparr>pu_entries = [P_STDOUT ''a'' ''k0'', P_NORMALIZED_ENTRY (7::nat) ''k1'' ''p''],
                       pu_addType = ''plan'', pu_loading = False\<rparr>)]))
          (TimeoutFires 2))
       = [Reset, SetEntries [P_STDOUT ''a'' ''k0'', P_NORMALIZED_ENTRY 7 ''k1'' ''p'']]"
proof -
  have ne: "[(True, \<lparr>pu_entries = [P_STDOUT ''a'' ''k0''], pu_addType = ''running'', pu_loading = True\<rparr>),
    (True, \<lparr>pu_entries = [P_STDOUT ''a'' ''k0'', P_NORMALIZED_ENTRY (7::nat) ''k1'' ''p''],
            pu_addType = ''plan'', pu_loading = False\<rparr>)] \<noteq> []" by simp
  have base: "cl_nextTimerId (cl_steps (cl_mount :: nat cl_state) []) = 1"
             "cl_context (cl_steps (cl_mount :: nat cl_state) []) = [Reset]"
    by (simp_all add: cl_eval)
  show ?thesis
    using debounce_applies_last_update [OF ne, of "[]"] base
    by (simp add: Let_def numeral_2_eq_2)
qed

section \<open>The loading flag\<close>




section \<open>The initial jump\<close>

text \<open>
  Claim C6. In every component that has the \<open>didInitScroll\<close> flag, a run asks for the
  initial jump exactly once when it should and never again. Counted on what the component
  hands to the browser: from the mount state the log viewers put the retry chain
  (timer-driven) or the scroll to the end of the last entry (cached flag) in place exactly
  once if some render has a non-empty list, and never otherwise; in a run without an
  attempt change, from any state, the two conversation lists with the flag request the
  scroll to the end of the last entry exactly once if the flag is not yet set and some
  render sees a non-empty list with loading finished, and never otherwise. Once the flag
  is set, the initial-scroll effect changes nothing and no later event of such a run
  requests the jump. Each link of the retry chain calls \<open>scrollTo\<close> with the
  container's scroll height and re-arms itself 100 ms later while attempts remain.
\<close>

theorem initial_jump_at_most_once:
  assumes "list_all (\<lambda>e. \<not> is_attempt_change e) cevs"
      and "list_all (\<lambda>e. \<not> vl_is_attempt_change e) levs"
  shows "lv_init_jumps lv_mount evs = (if list_ex lv_has_data evs then 1 else 0)
       \<and> vs_init_jumps vs_mount vevs = (if list_ex vs_has_data vevs then 1 else 0)
       \<and> cl_init_jumps cs cevs
           = (if \<not> cl_didInitScroll cs \<and> cl_ever_ready cs cevs then 1 else 0)
       \<and> vl_init_jumps ls levs
           = (if \<not> vl_didInitScroll ls \<and> vl_ever_ready ls levs then 1 else 0)
       \<and> (didInitScroll s \<longrightarrow> initScrollEffect len s = s \<and> lv_init_jumps s evs = 0)
       \<and> (vs_didInitScroll vs \<longrightarrow> vs_initScrollEffect len vs = vs \<and> vs_init_jumps vs vevs = 0)
       \<and> (cl_didInitScroll cs \<longrightarrow> cl_initScrollEffect cs = cs \<and> cl_init_jumps cs cevs = 0)
       \<and> (vl_didInitScroll ls \<longrightarrow> vl_initScrollEffect ls = ls \<and> vl_init_jumps ls levs = 0)
       \<and> scrolls (lv_run (Some el) (DoScroll attempts) s)
           = scrolls s @ [ScrollTo (scrollHeight el) Auto]
       \<and> timers (lv_run parentRef (DoScroll attempts) s)
           = timers s @ (if attempts > 0 then [(100, DoScroll (attempts - 1))] else [])
       \<and> (\<not> didInitScroll s \<and> len > 0 \<longrightarrow>
            timers (initScrollEffect len s) = timers s @ [(50, DoScroll 3)]
            \<and> didInitScroll (initScrollEffect len s))
       \<and> (\<not> vs_didInitScroll vs \<and> len > 0 \<longrightarrow>
            vs_raf (vs_initScrollEffect len vs) = vs_raf vs @ [ScrollToIndex (len - 1) AlignEnd]
            \<and> vs_didInitScroll (vs_initScrollEffect len vs))
       \<and> (\<not> cl_didInitScroll cs \<and> cl_entries cs \<noteq> [] \<and> \<not> cl_loading cs \<longrightarrow>
            cl_raf (cl_initScrollEffect cs)
              = cl_raf cs @ [ScrollToIndex (length (cl_entries cs) - 1) AlignEnd]
            \<and> cl_didInitScroll (cl_initScrollEffect cs))
       \<and> (\<not> vl_didInitScroll ls \<and> vl_entries ls \<noteq> [] \<and> \<not> vl_loading ls \<longrightarrow>
            vl_raf (vl_initScrollEffect ls)
              = vl_raf ls @ [ScrollToIndex (length (vl_entries ls) - 1) AlignEnd]
            \<and> vl_didInitScroll (vl_initScrollEffect ls))"
  using cl_init_jumps_eq [OF assms(1), of cs] vl_init_jumps_eq [OF assms(2), of ls]
  by (simp add: lv_init_jumps_eq vs_init_jumps_eq lv_mount_def vs_mount_def
      initScrollEffect_def vs_initScrollEffect_def cl_initScrollEffect_def
      vl_initScrollEffect_def scrollToBottom_def Let_def)

theorem initial_jump_at_most_once_witness:
  "list_all (\<lambda>e. \<not> is_attempt_change e)
     [EntriesUpdated True [P_STDOUT ''a'' ''k0''] ''running'' True, TimeoutFires 1, Rendered,
      EntriesUpdated True [P_STDOUT ''a'' ''k0'', P_STDERR ''b'' ''k1''] ''running'' False,
      TimeoutFires 2, Rendered,
      EntriesUpdated False [P_STDOUT ''a'' ''k0'', P_STDERR ''b'' ''k1'', P_STDOUT ''c'' ''k2'']
        ''running'' False,
      TimeoutFires 3, Rendered :: nat cl_event]
   \<and> list_all (\<lambda>e. \<not> vl_is_attempt_change e)
     [VlEntriesUpdated True [P_STDOUT ''a'' ''k0''] ''running'' False, VlRendered,
      VlEntriesUpdated False [P_STDOUT ''a'' ''k0'', P_STDERR ''b'' ''k1''] ''running'' False,
      VlRendered :: nat vl_event]
   \<and> lv_init_jumps lv_mount [LogsLength 0, LogsLength 1, Fire 0 None, LogsLength 2] = 1
   \<and> vs_init_jumps vs_mount [VsLogsLength 1, VsLogsLength 2] = 1
   \<and> cl_init_jumps (cl_mount :: nat cl_state)
       [EntriesUpdated True [P_STDOUT ''a'' ''k0''] ''running'' True, TimeoutFires 1, Rendered,
        EntriesUpdated True [P_STDOUT ''a'' ''k0'', P_STDERR ''b'' ''k1''] ''running'' False,
        TimeoutFires 2, Rendered,
        EntriesUpdated False [P_STDOUT ''a'' ''k0'', P_STDERR ''b'' ''k1'', P_STDOUT ''c'' ''k2'']
          ''running'' False,
        TimeoutFires 3, Rendered] = 1
   \<and> vl_init_jumps (vl_mount :: nat vl_state)
       [VlEntriesUpdated True [P_STDOUT ''a'' ''k0''] ''running'' False, VlRendered,
        VlEntriesUpdated False [P_STDOUT ''a'' ''k0'', P_STDERR ''b'' ''k1''] ''running'' False,
        VlRendered] = 1
   \<and> didInitScroll (lv_steps lv_mount [LogsLength 1])
   \<and> initScrollEffect 2 (lv_steps lv_mount [LogsLength 1]) = lv_steps lv_mount [LogsLength 1]
   \<and> lv_init_jumps (lv_steps lv_mount [LogsLength 1])
        [LogsLength 0, LogsLength 1, Fire 0 None, LogsLength 2] = 0
   \<and> scrolls (lv_run (Some \<lparr>scrollHeight = 1000, scrollTop = 0, clientHeight = 200\<rparr>)
                (DoScroll 3) lv_mount)
       = [ScrollTo 1000 Auto]"
proof -
  have h1: "list_all (\<lambda>e. \<not> is_attempt_change e)
     [EntriesUpdated True [P_STDOUT ''a'' ''k0''] ''running'' True, TimeoutFires 1, Rendered,
      EntriesUpdated True [P_STDOUT ''a'' ''k0'', P_STDERR ''b'' ''k1''] ''running'' False,
      TimeoutFires 2, Rendered,
      EntriesUpdated False [P_STDOUT ''a'' ''k0'', P_STDERR ''b'' ''k1'', P_STDOUT ''c'' ''k2'']
        ''running'' False,
      TimeoutFires 3, Rendered :: nat cl_event]"
    by simp
  have h2: "list_all (\<lambda>e. \<not> vl_is_attempt_change e)
     [VlEntriesUpdated True [P_STDOUT ''a'' ''k0''] ''running'' False, VlRendered,
      VlEntriesUpdated False [P_STDOUT ''a'' ''k0'', P_STDERR ''b'' ''k1''] ''running'' False,
      VlRendered :: nat vl_event]"
    by simp
  have d: "didInitScroll (lv_steps lv_mount [LogsLength 1])"
    by (simp add: lv_eval)
  have c: "\<not> cl_didInitScroll (cl_mount :: nat cl_state)"
    "cl_ever_ready (cl_mount :: nat cl_state)
       [EntriesUpdated True [P_STDOUT ''a'' ''k0''] ''running'' True, TimeoutFires 1, Rendered,
        EntriesUpdated True [P_STDOUT ''a'' ''k0'', P_STDERR ''b'' ''k1''] ''running'' False,
        TimeoutFires 2, Rendered,
        EntriesUpdated False [P_STDOUT ''a'' ''k0'', P_STDERR ''b'' ''k1'', P_STDOUT ''c'' ''k2'']
          ''running'' False,
        TimeoutFires 3, Rendered]"
    by (simp_all add: cl_eval)
  have v: "\<not> vl_didInitScroll (vl_mount :: nat vl_state)"
    "vl_ever_ready (vl_mount :: nat vl_state)
       [VlEntriesUpdated True [P_STDOUT ''a'' ''k0''] ''running'' False, VlRendered,
        VlEntriesUpdated False [P_STDOUT ''a'' ''k0'', P_STDERR ''b'' ''k1''] ''running'' False,
        VlRendered]"
    by (simp_all add: vl_eval)
  have n: "lv_init_jumps lv_mount [LogsLength 0, LogsLength 1, Fire 0 None, LogsLength 2] = 1"
    "vs_init_jumps vs_mount [VsLogsLength 1, VsLogsLength 2] = 1"
    "cl_init_jumps (cl_mount :: nat cl_state)
       [EntriesUpdated True [P_STDOUT ''a'' ''k0''] ''running'' True, TimeoutFires 1, Rendered,
        EntriesUpdated True [P_STDOUT ''a'' ''k0'', P_STDERR ''b'' ''k1''] ''running'' False,
        TimeoutFires 2, Rendered,
        EntriesUpdated False [P_STDOUT ''a'' ''k0'', P_STDERR ''b'' ''k1'', P_STDOUT ''c'' ''k2'']
          ''running'' False,
        TimeoutFires 3, Rendered] = 1"
    "vl_init_jumps (vl_mount :: nat vl_state)
       [VlEntriesUpdated True [P_STDOUT ''a'' ''k0''] ''running'' False, VlRendered,
        VlEntriesUpdated False [P_STDOUT ''a'' ''k0'', P_STDERR ''b'' ''k1''] ''running'' False,
        VlRendered] = 1"
    by (simp_all add: lv_eval vs_eval cl_eval vl_eval)
  from initial_jump_at_most_once [OF h1 h2,
         of "[LogsLength 0, LogsLength 1, Fire 0 None, LogsLength 2]"
            "[VsLogsLength 1, VsLogsLength 2]" cl_mount vl_mount
            "lv_steps lv_mount [LogsLength 1]" 2 vs_mount
            "\<lparr>scrollHeight = 1000, scrollTop = 0, clientHeight = 200\<rparr>" 3 None]
       initial_jump_at_most_once [OF h1 h2,
         of "[LogsLength 0, LogsLength 1, Fire 0 None, LogsLength 2]"
            "[VsLogsLength 1, VsLogsLength 2]" cl_mount vl_mount
            lv_mount 2 vs_mount
            "\<lparr>scrollHeight = 1000, scrollTop = 0, clientHeight = 200\<rparr>" 3 None]
       h1 h2 d c v n
  show ?thesis by (simp add: lv_mount_def)
qed

section \<open>Unmounting\<close>

text \<open>
  Claim C7. Unmounting \<open>ConversationList\<close> in any reachable state leaves no live
  timeout, so no timeout can fire afterwards and apply a pending update. Unmounting a
  timer-driven log viewer leaves its pending timers as they were: they fire as before,
  and the initial-scroll retry goes on re-arming itself.
\<close>

theorem unmount_cancels_debounce_only:
  "cl_timeouts (cl_unmount (cl_steps cl_mount evs)) = []
   \<and> cl_fire tid (cl_unmount (cl_steps cl_mount evs)) = cl_unmount (cl_steps cl_mount evs)
   \<and> timers (lv_unmount s) = timers s
   \<and> lv_fire i parentRef (lv_unmount s) = lv_fire i parentRef s
   \<and> timers (lv_unmount (lv_steps lv_mount [LogsLength 1]))
       = [(50, DoScroll 3), (50, AutoScrollCheck)]
   \<and> timers (lv_fire 0 None (lv_unmount (lv_steps lv_mount [LogsLength 1])))
       = [(50, AutoScrollCheck), (100, DoScroll 2)]"
  by (simp add: cl_unmount_no_timeouts cl_fire_def lv_unmount_def lv_steps_def lv_mount_def
      lv_commit_def initScrollEffect_def autoScrollEffect_def lv_fire_def Let_def
      scrollToBottom_def)

section \<open>Scrolling when the list grows\<close>

text \<open>
  Claim C1, as stated, fails in two of the components it names. In \<open>ConversationList\<close>,
  after the initial scroll and with the user scrolled away from the bottom (800 px above
  it), an update of add type \<open>'plan'\<close> that grows the list still scrolls, to the start of
  the last entry. In the interval-driven \<open>VirtualizedList\<close> every growth scrolls to the
  last entry, and so does the poll that finds the user away from the bottom.
\<close>

theorem scroll_issued_when_not_at_bottom:
  "cl_didInitScroll
     (cl_steps (cl_mount :: nat cl_state)
        [EntriesUpdated True [P_STDOUT ''a'' ''k0''] ''running'' False, TimeoutFires 1, Rendered,
         Scrolled (Some \<lparr>scrollHeight = 1000, scrollTop = 0, clientHeight = 200\<rparr>), Rendered])
   \<and> \<not> cl_atBottom
     (cl_steps (cl_mount :: nat cl_state)
        [EntriesUpdated True [P_STDOUT ''a'' ''k0''] ''running'' False, TimeoutFires 1, Rendered,
         Scrolled (Some \<lparr>scrollHeight = 1000, scrollTop = 0, clientHeight = 200\<rparr>), Rendered])
   \<and> cl_raf
     (cl_steps (cl_mount :: nat cl_state)
        [EntriesUpdated True [P_STDOUT ''a'' ''k0''] ''running'' False, TimeoutFires 1, Rendered,
         Scrolled (Some \<lparr>scrollHeight = 1000, scrollTop = 0, clientHeight = 200\<rparr>), Rendered])
     = [ScrollToIndex 0 AlignEnd, ScrollToIndex 0 AlignEnd]
   \<and> cl_raf
     (cl_steps (cl_mount :: nat cl_state)
        [EntriesUpdated True [P_STDOUT ''a'' ''k0''] ''running'' False, TimeoutFires 1, Rendered,
         Scrolled (Some \<lparr>scrollHeight = 1000, scrollTop = 0, clientHeight = 200\<rparr>), Rendered,
         EntriesUpdated False [P_STDOUT ''a'' ''k0'', P_STDOUT ''b'' ''k1''] ''plan'' False,
         TimeoutFires 2, Rendered])
     = [ScrollToIndex 0 AlignEnd, ScrollToIndex 0 AlignEnd, ScrollToIndex 1 AlignStart]
   \<and> \<not> distanceFromBottom \<lparr>scrollHeight = 1000, scrollTop = 0, clientHeight = 200\<rparr> < 50
   \<and> vi_scrolls
     (vi_steps (vi_mount :: nat vi_state)
        [ViEntriesUpdated [P_STDOUT ''a'' ''k0''] ''running'' False,
         ViTick (Some \<lparr>scrollHeight = 1000, scrollTop = 0, clientHeight = 200\<rparr>),
         ViEntriesUpdated [P_STDOUT ''a'' ''k0'', P_STDOUT ''b'' ''k1''] ''running'' False])
     = [ScrollToIndex 0 AlignEnd, ScrollToIndex 0 AlignEnd, ScrollToIndex 1 AlignEnd]"
  by (simp add: cl_eval vi_eval distanceFromBottom_def)

text \<open>
  Claim C1, amended. When the scroll effect sees a list that has grown after the initial
  scroll: the timer-driven log viewers set a 50 ms timer whose callback scrolls to the
  bottom when the container is then less than 50 px from the bottom and makes no call
  otherwise; the log viewer with the cached flag (which asks for no initial scroll here)
  scrolls to the last entry exactly when the flag says at bottom; \<open>ConversationList\<close>
  scrolls only when loading has finished, for add type \<open>'plan'\<close> to the start of the last
  entry wherever the user is, for \<open>'running'\<close> to its end exactly when the user was at
  the bottom, and for any other add type not at all; the scroll-tracking
  \<open>VirtualizedList\<close> scrolls to the last entry exactly when the user was at the bottom
  and the add type is \<open>'running'\<close> or \<open>'plan'\<close>; the interval-driven
  \<open>VirtualizedList\<close> scrolls to the last entry whenever its effect runs on a non-empty
  list, wherever the user is.
\<close>

theorem auto_scroll_on_growth:
  assumes "didInitScroll s" and "prevLenRef s < len"
      and "vs_prevLogsLengthRef vs < len"
      and "cl_didInitScroll cs" and "cl_prevEntriesLengthRef cs < length (cl_entries cs)"
      and "vl_didInitScroll ls" and "vl_prevEntriesLengthRef ls < length (vl_entries ls)"
      and "vi_entries is \<noteq> []"
  shows "timers (autoScrollEffect len s) = timers s @ [(50, AutoScrollCheck)]
       \<and> scrolls (lv_run (Some el) AutoScrollCheck s')
           = scrolls s' @ (if distanceFromBottom el < 50
                          then [ScrollTo (scrollHeight el) Smooth] else [])
       \<and> vs_raf (vs_autoScrollEffect len vs)
           = vs_raf vs @ (if vs_atBottom vs then [ScrollToIndex (len - 1) AlignEnd] else [])
       \<and> cl_raf (cl_autoScrollEffect cs)
           = cl_raf cs @
               (if cl_loading cs then []
                else if cl_addTypeRef cs = ''plan''
                then [ScrollToIndex (length (cl_entries cs) - 1) AlignStart]
                else if cl_addTypeRef cs = ''running'' \<and> cl_atBottom cs
                then [ScrollToIndex (length (cl_entries cs) - 1) AlignEnd]
                else [])
       \<and> vl_raf (vl_autoScrollEffect ls)
           = vl_raf ls @
               (if vl_atBottom ls \<and> (vl_addTypeRef ls = ''running'' \<or> vl_addTypeRef ls = ''plan'')
                then [ScrollToIndex (length (vl_entries ls) - 1) AlignEnd]
                else [])
       \<and> vi_scrolls (vi_scrollEffect is)
           = vi_scrolls is @ [ScrollToIndex (length (vi_entries is) - 1) AlignEnd]"
proof -
  have lv: "timers (autoScrollEffect len s) = timers s @ [(50, AutoScrollCheck)]"
    using assms(1,2) by (simp add: autoScrollEffect_def Let_def)
  have run: "scrolls (lv_run (Some el) AutoScrollCheck s')
           = scrolls s' @ (if distanceFromBottom el < 50
                          then [ScrollTo (scrollHeight el) Smooth] else [])"
    by (simp add: isAtBottom_def scrollToBottom_def distanceFromBottom_def)
  have vs: "vs_raf (vs_autoScrollEffect len vs)
           = vs_raf vs @ (if vs_atBottom vs then [ScrollToIndex (len - 1) AlignEnd] else [])"
    using assms(3) by (simp add: vs_autoScrollEffect_def Let_def)
  have cl: "cl_raf (cl_autoScrollEffect cs)
           = cl_raf cs @
               (if cl_loading cs then []
                else if cl_addTypeRef cs = ''plan''
                then [ScrollToIndex (length (cl_entries cs) - 1) AlignStart]
                else if cl_addTypeRef cs = ''running'' \<and> cl_atBottom cs
                then [ScrollToIndex (length (cl_entries cs) - 1) AlignEnd]
                else [])"
  proof -
    from assms(5) have "cl_entries cs \<noteq> []" by auto
    with assms(4,5) show ?thesis by (simp add: cl_autoScrollEffect_def Let_def)
  qed
  have vl: "vl_raf (vl_autoScrollEffect ls)
           = vl_raf ls @
               (if vl_atBottom ls \<and> (vl_addTypeRef ls = ''running'' \<or> vl_addTypeRef ls = ''plan'')
                then [ScrollToIndex (length (vl_entries ls) - 1) AlignEnd]
                else [])"
  proof -
    from assms(7) have "vl_entries ls \<noteq> []" by auto
    with assms(6,7) show ?thesis by (simp add: vl_autoScrollEffect_def Let_def)
  qed
  have vi: "vi_scrolls (vi_scrollEffect is)
           = vi_scrolls is @ [ScrollToIndex (length (vi_entries is) - 1) AlignEnd]"
    using assms(8) by (simp add: vi_scrollEffect_def Let_def)
  from lv run vs cl vl vi show ?thesis by blast
qed

theorem auto_scroll_on_growth_witness:
  "didInitScroll (lv_steps lv_mount [LogsLength 1])
   \<and> prevLenRef (lv_steps lv_mount [LogsLength 1]) < 2
   \<and> vs_prevLogsLengthRef (vs_steps vs_mount [VsLogsLength 1]) < 2
   \<and> cl_didInitScroll
        ((cl_steps (cl_mount :: nat cl_state)
           [EntriesUpdated True [P_STDOUT ''a'' ''k0''] ''running'' False, TimeoutFires 1,
            Rendered])
         \<lparr>cl_entries := [P_STDOUT ''a'' ''k0'', P_STDOUT ''b'' ''k1'']\<rparr>)
   \<and> cl_prevEntriesLengthRef
        ((cl_steps (cl_mount :: nat cl_state)
           [EntriesUpdated True [P_STDOUT ''a'' ''k0''] ''running'' False, TimeoutFires 1,
            Rendered])
         \<lparr>cl_entries := [P_STDOUT ''a'' ''k0'', P_STDOUT ''b'' ''k1'']\<rparr>) < 2
   \<and> timers (autoScrollEffect 2 (lv_steps lv_mount [LogsLength 1]))
       = [(50, DoScroll 3), (50, AutoScrollCheck), (50, AutoScrollCheck)]
   \<and> scrolls (lv_run (Some \<lparr>scrollHeight = 1000, scrollTop = 780, clientHeight = 200\<rparr>)
                AutoScrollCheck lv_mount)
       = [ScrollTo 1000 Smooth]
   \<and> scrolls (lv_run (Some \<lparr>scrollHeight = 1000, scrollTop = 0, clientHeight = 200\<rparr>)
                AutoScrollCheck lv_mount)
       = []
   \<and> vs_raf (vs_autoScrollEffect 2 (vs_steps vs_mount [VsLogsLength 1]))
       = [ScrollToIndex 0 AlignEnd, ScrollToIndex 0 AlignEnd, ScrollToIndex 1 AlignEnd]
   \<and> cl_raf (cl_autoScrollEffect
        ((cl_steps (cl_mount :: nat cl_state)
           [EntriesUpdated True [P_STDOUT ''a'' ''k0''] ''running'' False, TimeoutFires 1,
            Rendered])
         \<lparr>cl_entries := [P_STDOUT ''a'' ''k0'', P_STDOUT ''b'' ''k1'']\<rparr>))
       = [ScrollToIndex 0 AlignEnd, ScrollToIndex 0 AlignEnd, ScrollToIndex 1 AlignEnd]
   \<and> vl_raf (vl_autoScrollEffect
        ((vl_steps (vl_mount :: nat vl_state)
           [VlEntriesUpdated True [P_STDOUT ''a'' ''k0''] ''running'' False, VlRendered])
         \<lparr>vl_entries := [P_STDOUT ''a'' ''k0'', P_STDOUT ''b'' ''k1'']\<rparr>))
       = [ScrollToIndex 0 AlignEnd, ScrollToIndex 0 AlignEnd, ScrollToIndex 1 AlignEnd]
   \<and> vi_scrolls (vi_scrollEffect
        ((vi_mount :: nat vi_state)\<lparr>vi_entries := [P_STDOUT ''a'' ''k0'']\<rparr>))
       = [ScrollToIndex 0 AlignEnd]"
proof -
  let ?s = "lv_steps lv_mount [LogsLength 1]"
  let ?vs = "vs_steps vs_mount [VsLogsLength 1]"
  let ?cs = "(cl_steps (cl_mount :: nat cl_state)
           [EntriesUpdated True [P_STDOUT ''a'' ''k0''] ''running'' False, TimeoutFires 1,
            Rendered])
         \<lparr>cl_entries := [P_STDOUT ''a'' ''k0'', P_STDOUT ''b'' ''k1'']\<rparr>"
  let ?ls = "(vl_steps (vl_mount :: nat vl_state)
           [VlEntriesUpdated True [P_STDOUT ''a'' ''k0''] ''running'' False, VlRendered])
         \<lparr>vl_entries := [P_STDOUT ''a'' ''k0'', P_STDOUT ''b'' ''k1'']\<rparr>"
  let ?is = "(vi_mount :: nat vi_state)\<lparr>vi_entries := [P_STDOUT ''a'' ''k0'']\<rparr>"
  have h1: "didInitScroll ?s" and h2: "prevLenRef ?s < 2"
    by (simp_all add: lv_eval)
  have h3: "vs_prevLogsLengthRef ?vs < 2"
    by (simp add: vs_eval)
  have h4: "cl_didInitScroll ?cs" and h5: "cl_prevEntriesLengthRef ?cs < length (cl_entries ?cs)"
    by (simp_all add: cl_eval)
  have h6: "vl_didInitScroll ?ls" and h7: "vl_prevEntriesLengthRef ?ls < length (vl_entries ?ls)"
    by (simp_all add: vl_eval)
  have h8: "vi_entries ?is \<noteq> []"
    by simp
  have e: "timers ?s = [(50, DoScroll 3), (50, AutoScrollCheck)]"
          "vs_raf ?vs = [ScrollToIndex 0 AlignEnd, ScrollToIndex 0 AlignEnd]"
          "vs_atBottom ?vs"
          "cl_raf ?cs = [ScrollToIndex 0 AlignEnd, ScrollToIndex 0 AlignEnd]"
          "\<not> cl_loading ?cs" "cl_addTypeRef ?cs = ''running''" "cl_atBottom ?cs"
          "cl_prevEntriesLengthRef ?cs = 1"
          "vl_raf ?ls = [ScrollToIndex 0 AlignEnd, ScrollToIndex 0 AlignEnd]"
          "vl_addTypeRef ?ls = ''running''" "vl_atBottom ?ls"
          "vi_scrolls ?is = []"
    by (simp_all add: lv_eval vs_eval cl_eval vl_eval vi_eval)
  from auto_scroll_on_growth [OF h1 h2 h3 h4 h5 h6 h7 h8,
         of "\<lparr>scrollHeight = 1000, scrollTop = 780, clientHeight = 200\<rparr>" lv_mount]
       auto_scroll_on_growth [OF h1 h2 h3 h4 h5 h6 h7 h8,
         of "\<lparr>scrollHeight = 1000, scrollTop = 0, clientHeight = 200\<rparr>" lv_mount]
       h1 h2 h3 h4 e
  show ?thesis
    by (simp add: distanceFromBottom_def lv_mount_def)
qed

end
